theory Spec2Isabelle
  imports
    Main
    "HOL-Library.Char_ord"
    "HOL-Library.List_Lexorder"
    "HOL-Library.Monad_Syntax"
begin

section \<open>Data model of \<^verbatim>\<open>importlinter/contracts/_common.py\<close>\<close>

text \<open>
  Module names are Python strings, modelled as \<^typ>\<open>string\<close>; they are compared and sorted
  character by character, which is the lexicographic order of \<^typ>\<open>char list\<close>.
  The exceptions the module can raise are values of \<open>error\<close>: \<open>ValueError\<close> is the explicit
  \<^verbatim>\<open>raise ValueError\<close> of \<^verbatim>\<open>find_segments\<close>, \<open>IndexError\<close> is what Python raises for
  \<^verbatim>\<open>xs[0]\<close> and \<^verbatim>\<open>xs[-1]\<close> on an empty sequence.
\<close>

datatype error = ValueError | IndexError

record Link =
  importer :: string
  imported :: string
  line_numbers :: "int option list"

type_synonym Chain = "Link list"

record DetailedChain =
  chain :: Chain
  extra_firsts :: "Link list"
  extra_lasts :: "Link list"

record ImportNote =
  module :: string
  msg :: string
  line_numbers :: "int option list"

subsection \<open>Module\<close>

text \<open>
  Modelled from the spec: the class \<^verbatim>\<open>importlinter.domain.imports.Module\<close> is imported by
  the source file and is not part of it. The spec (section 3) makes it a value with a dotted
  name, equal to another one iff the names are the same string.
\<close>

datatype Module = Module (name: string)

text \<open>
  Modelled from the spec: \<^verbatim>\<open>Module.is_descendant_of(other)\<close>, missing with the class. It
  holds iff the name is the name of \<^verbatim>\<open>other\<close>, followed by a dot, followed by a non-empty
  suffix (section 3).
\<close>

definition is_descendant_of :: "Module \<Rightarrow> Module \<Rightarrow> bool" where
  "is_descendant_of m other \<longleftrightarrow>
     length (name other) + 1 < length (name m) \<and>
     take (length (name other) + 1) (name m) = name other @ ''.''"

subsection \<open>The import graph collaborator\<close>

text \<open>
  Modelled from the spec: \<^verbatim>\<open>grimp.ImportGraph\<close> is an external collaborator, given in
  section 6 of the spec by its operations only. The model is the list of its direct imports,
  each with its detail records. An import may have no detail record (a graph built by hand);
  a detail record carries the line number of the import statement, an integer.
\<close>

record DetailedImport =
  line_number :: int
  line_contents :: string

type_synonym ImportGraph = "((string \<times> string) \<times> DetailedImport list) list"

text \<open>
  Modelled from the spec: the operations of the collaborator (section 6).
  \<^item> edge details (\<open>get_import_details\<close>): the records of the import, empty if there is
    none;
  \<^item> remove edge (\<open>remove_import\<close>): idempotent, no-op if the import is absent;
  \<^item> direct importers (\<open>find_modules_that_directly_import\<close>) and direct imports
    (\<open>find_modules_directly_imported_by\<close>): sets of module names.

  \<open>direct_imports\<close> is the set of the imports of a graph.
\<close>

definition direct_imports :: "ImportGraph \<Rightarrow> (string \<times> string) set" where
  "direct_imports graph = set (map fst graph)"

definition get_import_details :: "ImportGraph \<Rightarrow> string \<Rightarrow> string \<Rightarrow> DetailedImport list" where
  "get_import_details graph a b = concat (map snd (filter (\<lambda>e. fst e = (a, b)) graph))"

definition remove_import :: "ImportGraph \<Rightarrow> string \<Rightarrow> string \<Rightarrow> ImportGraph" where
  "remove_import graph a b = filter (\<lambda>e. fst e \<noteq> (a, b)) graph"

definition find_modules_that_directly_import :: "ImportGraph \<Rightarrow> string \<Rightarrow> string set" where
  "find_modules_that_directly_import graph m =
     set (map (\<lambda>e. fst (fst e)) (filter (\<lambda>e. snd (fst e) = m) graph))"

definition find_modules_directly_imported_by :: "ImportGraph \<Rightarrow> string \<Rightarrow> string set" where
  "find_modules_directly_imported_by graph m =
     set (map (\<lambda>e. snd (fst e)) (filter (\<lambda>e. fst (fst e) = m) graph))"

text \<open>
  Modelled from the spec: the shortest path query of the collaborator
  (\<open>find_shortest_chain\<close>; section 6: an ordered sequence of module names from importer to
  imported, shortest by edge count, or none when there is no path).
  \<open>chains_of_length graph n a b\<close> lists the chains with exactly \<open>n\<close> edges that lead from
  \<open>a\<close> to \<open>b\<close>. The shortest chain is the first chain of the least \<open>n\<close> that has one; a chain
  that repeats no edge has at most as many edges as the graph, which bounds the search.
  Which of several shortest chains is returned is the collaborator's choice; the model takes
  the first in the order of the list of imports, and no property proved below depends on it.
  From a module to itself the chain with no edge, \<open>[a]\<close>, is the shortest one.
\<close>

fun chains_of_length :: "ImportGraph \<Rightarrow> nat \<Rightarrow> string \<Rightarrow> string \<Rightarrow> string list list" where
  "chains_of_length graph 0 a b = (if a = b then [[a]] else [])"
| "chains_of_length graph (Suc n) a b =
     concat (map (\<lambda>e. if fst (fst e) = a
                       then map (\<lambda>p. a # p) (chains_of_length graph n (snd (fst e)) b)
                       else []) graph)"

definition find_shortest_chain :: "ImportGraph \<Rightarrow> string \<Rightarrow> string \<Rightarrow> string list option" where
  "find_shortest_chain graph a b =
     (case List.find (\<lambda>n. chains_of_length graph n a b \<noteq> []) [0..<Suc (length graph)] of
        None \<Rightarrow> None
      | Some n \<Rightarrow> Some (hd (chains_of_length graph n a b)))"

text \<open>
  Modelled from the spec: \<^verbatim>\<open>grimp.Route\<close>, the collaborator's path with several
  interchangeable heads and tails (section 4.3): two sets of module names and the ordered
  middle.
\<close>

record Route =
  heads :: "string set"
  middle :: "string list"
  tails :: "string set"

section \<open>Chain extraction\<close>

text \<open>
  \<^verbatim>\<open>pairwise\<close> of the source, the successive overlapping pairs of a sequence (the name
  \<open>pairwise\<close> itself belongs to a constant on sets).
\<close>

definition pairwise_seq :: "'a list \<Rightarrow> ('a \<times> 'a) list" where
  "pairwise_seq xs = zip xs (tl xs)"

text \<open>
  The inner loop of \<^verbatim>\<open>_pop_shortest_chains\<close>,
  \<^verbatim>\<open>for index in range(len(chain) - 1): graph.remove_import(chain[index], chain[index + 1])\<close>.
\<close>

definition remove_chain :: "ImportGraph \<Rightarrow> string list \<Rightarrow> ImportGraph" where
  "remove_chain graph c =
     fold (\<lambda>index g. remove_import g (c ! index) (c ! (index + 1))) [0..<length c - 1] graph"

text \<open>
  \<^verbatim>\<open>_pop_shortest_chains\<close> (an Isabelle name cannot start with an underscore). The generator
  is modelled by the list of all the chains it yields, together with the graph as the loop
  leaves it; \<open>None\<close> is the generator that never stops. Python's \<^verbatim>\<open>if chain:\<close> is false
  for \<^verbatim>\<open>None\<close> and for the empty tuple.
\<close>

partial_function (option) pop_shortest_chains ::
  "ImportGraph \<Rightarrow> string \<Rightarrow> string \<Rightarrow> (string list list \<times> ImportGraph) option" where
  "pop_shortest_chains graph a b =
     (case find_shortest_chain graph a b of
        None \<Rightarrow> Some ([], graph)
      | Some c \<Rightarrow>
          if c = [] then Some ([], graph)
          else do {
            (cs, graph') \<leftarrow> pop_shortest_chains (remove_chain graph c) a b;
            Some (c # cs, graph')
          })"

text \<open>
  The sorted, de-duplicated line numbers of a list of detail records:
  \<^verbatim>\<open>tuple(sorted(set(j["line_number"] for j in import_details)))\<close>.
\<close>

definition sorted_line_numbers :: "DetailedImport list \<Rightarrow> int option list" where
  "sorted_line_numbers import_details =
     map Some (sorted_list_of_set (set (map line_number import_details)))"

text \<open>
  The body of the loop of \<^verbatim>\<open>find_segments\<close> that turns one chain into a segment:
  one link for each \<^verbatim>\<open>(chain[i], chain[i + 1])\<close>, \<^verbatim>\<open>i\<close> in \<^verbatim>\<open>range(len(chain) - 1)\<close>.
\<close>

definition build_segment :: "ImportGraph \<Rightarrow> string list \<Rightarrow> Chain" where
  "build_segment reference_graph c =
     map (\<lambda>(importer_in_chain, imported_in_chain).
            \<lparr>importer = importer_in_chain, imported = imported_in_chain,
             Link.line_numbers =
               sorted_line_numbers
                 (get_import_details reference_graph importer_in_chain imported_in_chain)\<rparr>)
         (map (\<lambda>i. (c ! i, c ! (i + 1))) [0..<length c - 1])"

text \<open>
  \<^verbatim>\<open>find_segments\<close> consumes the generator as it runs: a chain is popped (and its imports
  removed from the mutated graph), then checked, then turned into a segment. The result is
  the mutated graph with either the error raised or the list of segments; \<open>None\<close> is the
  loop that never stops.
\<close>

partial_function (option) find_segments_loop ::
  "ImportGraph \<Rightarrow> ImportGraph \<Rightarrow> string \<Rightarrow> string \<Rightarrow> (ImportGraph \<times> (error + Chain list)) option"
  where
  "find_segments_loop graph reference_graph a b =
     (case find_shortest_chain graph a b of
        None \<Rightarrow> Some (graph, Inr [])
      | Some c \<Rightarrow>
          if c = [] then Some (graph, Inr [])
          else if length c = 2 then Some (remove_chain graph c, Inl ValueError)
          else do {
            (graph', r) \<leftarrow> find_segments_loop (remove_chain graph c) reference_graph a b;
            Some (graph', case r of Inl e \<Rightarrow> Inl e
                          | Inr segments \<Rightarrow> Inr (build_segment reference_graph c # segments))
          })"

definition find_segments ::
  "ImportGraph \<Rightarrow> ImportGraph \<Rightarrow> Module \<Rightarrow> Module \<Rightarrow> (ImportGraph \<times> (error + Chain list)) option"
  where
  "find_segments graph reference_graph importer_m imported_m =
     find_segments_loop graph reference_graph (name importer_m) (name imported_m)"

section \<open>Segment collapsing\<close>

text \<open>
  The two comprehensions of \<^verbatim>\<open>segments_to_collapsed_chains\<close>: the sorted direct importers
  of the head boundary that are the importer or one of its descendants, and the sorted
  modules directly imported by the tail boundary that are the imported module or one of its
  descendants, each as a link with its line numbers.
\<close>

definition head_imports :: "ImportGraph \<Rightarrow> string \<Rightarrow> Module \<Rightarrow> Link list" where
  "head_imports graph imported_module importer_m =
     map (\<lambda>m. \<lparr>importer = m, imported = imported_module,
                Link.line_numbers =
                  sorted_line_numbers (get_import_details graph m imported_module)\<rparr>)
         (filter (\<lambda>m. Module m = importer_m \<or> is_descendant_of (Module m) importer_m)
                 (sorted_list_of_set (find_modules_that_directly_import graph imported_module)))"

definition tail_imports :: "ImportGraph \<Rightarrow> string \<Rightarrow> Module \<Rightarrow> Link list" where
  "tail_imports graph importer_module imported_m =
     map (\<lambda>m. \<lparr>importer = importer_module, imported = m,
                Link.line_numbers =
                  sorted_line_numbers (get_import_details graph importer_module m)\<rparr>)
         (filter (\<lambda>m. Module m = imported_m \<or> is_descendant_of (Module m) imported_m)
                 (sorted_list_of_set (find_modules_directly_imported_by graph importer_module)))"

text \<open>
  One turn of the loop over the segments. \<^verbatim>\<open>segment[0]\<close> raises on an empty segment,
  \<^verbatim>\<open>head_imports[0]\<close> and \<^verbatim>\<open>tail_imports[0]\<close> raise on an empty expansion;
  \<^verbatim>\<open>segment[1:-1]\<close> is the segment without its first and last link.
\<close>

definition collapse_segment ::
  "ImportGraph \<Rightarrow> Chain \<Rightarrow> Module \<Rightarrow> Module \<Rightarrow> error + DetailedChain" where
  "collapse_segment graph segment importer_m imported_m =
     (if segment = [] then Inl IndexError
      else
        let hs = head_imports graph (imported (hd segment)) importer_m;
            ts = tail_imports graph (importer (last segment)) imported_m
        in if hs = [] \<or> ts = [] then Inl IndexError
           else Inr \<lparr>chain = [hd hs] @ butlast (tl segment) @ [hd ts],
                     extra_firsts = tl hs,
                     extra_lasts = tl ts\<rparr>)"

fun segments_to_collapsed_chains ::
  "ImportGraph \<Rightarrow> Chain list \<Rightarrow> Module \<Rightarrow> Module \<Rightarrow> error + DetailedChain list" where
  "segments_to_collapsed_chains graph [] importer_m imported_m = Inr []"
| "segments_to_collapsed_chains graph (segment # segments) importer_m imported_m =
     (case collapse_segment graph segment importer_m imported_m of
        Inl e \<Rightarrow> Inl e
      | Inr collapsed \<Rightarrow>
          (case segments_to_collapsed_chains graph segments importer_m imported_m of
             Inl e \<Rightarrow> Inl e
           | Inr collapsed_chains \<Rightarrow> Inr (collapsed # collapsed_chains)))"

section \<open>Route-based assembly\<close>

definition get_line_numbers :: "string \<Rightarrow> string \<Rightarrow> ImportGraph \<Rightarrow> int option list" where
  "get_line_numbers a b graph =
     (let details = get_import_details graph a b
      in if details \<noteq> [] then map (\<lambda>i. Some (line_number i)) details else [None])"

text \<open>
  \<^verbatim>\<open>route.middle[0]\<close> and \<^verbatim>\<open>route.middle[-1]\<close> are evaluated once for each extra head and
  each extra tail, so an empty middle raises only when there is one;
  \<^verbatim>\<open>ordered_heads[0]\<close> and \<^verbatim>\<open>ordered_tails[0]\<close> raise when the route has no head or no tail.
\<close>

definition build_detailed_chain_from_route :: "Route \<Rightarrow> ImportGraph \<Rightarrow> error + DetailedChain"
  where
  "build_detailed_chain_from_route route graph =
     (let ordered_heads = sorted_list_of_set (heads route);
          ordered_tails = sorted_list_of_set (tails route)
      in if (tl ordered_heads \<noteq> [] \<or> tl ordered_tails \<noteq> []) \<and> middle route = []
         then Inl IndexError
         else if ordered_heads = [] \<or> ordered_tails = [] then Inl IndexError
         else
           let chain_as_strings = [hd ordered_heads] @ middle route @ [hd ordered_tails]
           in Inr \<lparr>chain =
                      map (\<lambda>(a, b). \<lparr>importer = a, imported = b,
                                       Link.line_numbers = get_line_numbers a b graph\<rparr>)
                          (pairwise_seq chain_as_strings),
                    extra_firsts =
                      map (\<lambda>head. \<lparr>importer = head, imported = hd (middle route),
                                     Link.line_numbers =
                                       get_line_numbers head (hd (middle route)) graph\<rparr>)
                          (tl ordered_heads),
                    extra_lasts =
                      map (\<lambda>tail. \<lparr>importer = last (middle route), imported = tail,
                                     Link.line_numbers =
                                       get_line_numbers (last (middle route)) tail graph\<rparr>)
                          (tl ordered_tails)\<rparr>)"

section \<open>Note rendering\<close>

text \<open>
  Python's \<^verbatim>\<open>str\<close> of an integer, as the f-string \<^verbatim>\<open>f"l.{line_number}"\<close> produces it.
\<close>

fun str_nat :: "nat \<Rightarrow> string" where
  "str_nat n =
     (if n < 10 then [''0123456789'' ! n]
      else str_nat (n div 10) @ [''0123456789'' ! (n mod 10)])"

declare str_nat.simps [simp del]

definition str_int :: "int \<Rightarrow> string" where
  "str_int i = (if i < 0 then ''-'' @ str_nat (nat (- i)) else str_nat (nat i))"

text \<open>\<^verbatim>\<open>sep.join(parts)\<close> of Python.\<close>

fun join :: "string \<Rightarrow> string list \<Rightarrow> string" where
  "join sep [] = []"
| "join sep [x] = x"
| "join sep (x # y # ys) = x @ sep @ join sep (y # ys)"

definition format_line_numbers :: "int option list \<Rightarrow> string" where
  "format_line_numbers lns =
     join '', ''
       (map (\<lambda>line_number. case line_number of None \<Rightarrow> ''l.?''
                            | Some n \<Rightarrow> ''l.'' @ str_int n) lns)"

text \<open>\<^verbatim>\<open>ImportNote.__str__\<close>.\<close>

definition ImportNote_str :: "ImportNote \<Rightarrow> string" where
  "ImportNote_str note =
     msg note @ '' ('' @ format_line_numbers (ImportNote.line_numbers note) @ '')''"

text \<open>
  \<^verbatim>\<open>_notes_from_direct_import\<close>. The two keyword arguments default to \<^verbatim>\<open>None\<close>;
  \<^verbatim>\<open>if extra_firsts:\<close> is false for \<^verbatim>\<open>None\<close> and for the empty list.
\<close>

definition notes_from_direct_import ::
  "Link \<Rightarrow> Link list option \<Rightarrow> Link list option \<Rightarrow> ImportNote list" where
  "notes_from_direct_import direct_import extra_firsts_arg extra_lasts_arg =
     (let firsts = (case extra_firsts_arg of None \<Rightarrow> [] | Some xs \<Rightarrow> xs);
          lasts = (case extra_lasts_arg of None \<Rightarrow> [] | Some xs \<Rightarrow> xs)
      in (if firsts \<noteq> []
          then map (\<lambda>(position, source).
                      \<lparr>module = importer source,
                       msg = (if position > 0 then ''& '' else '''') @ importer source,
                       line_numbers = Link.line_numbers source\<rparr>)
                   (enumerate 0 ([direct_import] @ butlast firsts))
               @ [\<lparr>module = importer (last firsts),
                    msg = ''& '' @ importer (last firsts) @ '' -> '' @ imported (last firsts),
                    line_numbers = Link.line_numbers (last firsts)\<rparr>]
          else [\<lparr>module = importer direct_import,
                  msg = importer direct_import @ '' -> '' @ imported direct_import,
                  line_numbers = Link.line_numbers direct_import\<rparr>])
         @ (if lasts \<noteq> []
            then map (\<lambda>destination.
                        \<lparr>module = importer direct_import,
                         msg = replicate (length (importer direct_import) + 4) CHR '' ''
                               @ ''& '' @ imported destination,
                         line_numbers = Link.line_numbers destination\<rparr>)
                     lasts
            else []))"

text \<open>
  \<^verbatim>\<open>notes_from_chain_data\<close>: \<^verbatim>\<open>main_chain[0]\<close> raises on an empty chain.
\<close>

definition notes_from_chain_data :: "DetailedChain \<Rightarrow> error + ImportNote list" where
  "notes_from_chain_data chain_data =
     (let main_chain = chain chain_data
      in if main_chain = [] then Inl IndexError
         else Inr (notes_from_direct_import (hd main_chain) (Some (extra_firsts chain_data)) None
                   @ concat (map (\<lambda>direct_import. notes_from_direct_import direct_import None None)
                                 (butlast (tl main_chain)))
                   @ (if length main_chain > 1
                      then notes_from_direct_import (last main_chain) None
                             (Some (extra_lasts chain_data))
                      else [])))"

text \<open>
  \<^verbatim>\<open>render_notes_from_chain_data\<close> prints one line for each note; the model returns the
  lines printed.
\<close>

definition render_notes_from_chain_data :: "ImportNote list \<Rightarrow> string list" where
  "render_notes_from_chain_data notes =
     map (\<lambda>(position, import_note).
            (if position = 0 then ''- '' else ''  '') @ ImportNote_str import_note)
         (enumerate 0 notes)"

section \<open>Notions used to state the properties\<close>

text \<open>
  A chain from \<open>a\<close> to \<open>b\<close> in a graph: a non-empty sequence of module names that starts
  at \<open>a\<close>, ends at \<open>b\<close>, and whose successive pairs are direct imports of the graph.
\<close>

definition is_chain :: "ImportGraph \<Rightarrow> string \<Rightarrow> string \<Rightarrow> string list \<Rightarrow> bool" where
  "is_chain graph a b p \<longleftrightarrow>
     p \<noteq> [] \<and> hd p = a \<and> last p = b \<and> set (pairwise_seq p) \<subseteq> direct_imports graph"

text \<open>The direct imports that lie on some chain from \<open>a\<close> to \<open>b\<close>.\<close>

definition on_path_edges :: "ImportGraph \<Rightarrow> string \<Rightarrow> string \<Rightarrow> (string \<times> string) set" where
  "on_path_edges graph a b = {e. \<exists>p. is_chain graph a b p \<and> e \<in> set (pairwise_seq p)}"

text \<open>
  The graph at the moment the chain number \<open>i\<close> of a run is looked for: the imports of
  the chains popped before it are gone.
\<close>

definition graph_before :: "ImportGraph \<Rightarrow> string list list \<Rightarrow> nat \<Rightarrow> ImportGraph" where
  "graph_before graph cs i = foldl remove_chain graph (take i cs)"

text \<open>
  A run of the pop loop, told step by step: each chain is a shortest chain of the graph it
  is found in, the next one is found in the graph without the imports of this one, and the
  run stops on a graph that has no chain left.
\<close>

fun valid_pops :: "ImportGraph \<Rightarrow> string \<Rightarrow> string \<Rightarrow> string list list \<Rightarrow> bool" where
  "valid_pops g a b [] \<longleftrightarrow> (\<forall>p. \<not> is_chain g a b p)"
| "valid_pops g a b (c # cs) \<longleftrightarrow>
     is_chain g a b c \<and> (\<forall>q. is_chain g a b q \<longrightarrow> length c \<le> length q)
     \<and> valid_pops (remove_chain g c) a b cs"

text \<open>
  The collapsing stage in the words of the specification: the head candidates are the
  direct importers of the head boundary that are the importer or one of its descendants,
  the tail candidates the modules directly imported by the tail boundary that are the
  imported module or one of its descendants. The least candidate gives the primary link,
  the others, in ascending order, the extra links; every such link takes its line numbers
  from the graph passed in.
\<close>

definition head_candidates :: "ImportGraph \<Rightarrow> Chain \<Rightarrow> Module \<Rightarrow> string set" where
  "head_candidates graph segment importer_m =
     {m \<in> find_modules_that_directly_import graph (imported (hd segment)).
        Module m = importer_m \<or> is_descendant_of (Module m) importer_m}"

definition tail_candidates :: "ImportGraph \<Rightarrow> Chain \<Rightarrow> Module \<Rightarrow> string set" where
  "tail_candidates graph segment imported_m =
     {m \<in> find_modules_directly_imported_by graph (importer (last segment)).
        Module m = imported_m \<or> is_descendant_of (Module m) imported_m}"

definition head_link :: "ImportGraph \<Rightarrow> Chain \<Rightarrow> string \<Rightarrow> Link" where
  "head_link graph segment m =
     \<lparr>importer = m, imported = imported (hd segment),
      Link.line_numbers = sorted_line_numbers (get_import_details graph m (imported (hd segment)))\<rparr>"

definition tail_link :: "ImportGraph \<Rightarrow> Chain \<Rightarrow> string \<Rightarrow> Link" where
  "tail_link graph segment m =
     \<lparr>importer = importer (last segment), imported = m,
      Link.line_numbers = sorted_line_numbers (get_import_details graph (importer (last segment)) m)\<rparr>"

definition collapsed_spec :: "ImportGraph \<Rightarrow> Chain \<Rightarrow> Module \<Rightarrow> Module \<Rightarrow> DetailedChain" where
  "collapsed_spec graph segment importer_m imported_m =
     (let H = head_candidates graph segment importer_m;
          T = tail_candidates graph segment imported_m
      in \<lparr>chain = [head_link graph segment (Min H)] @ butlast (tl segment)
                   @ [tail_link graph segment (Min T)],
          extra_firsts = map (head_link graph segment) (sorted_list_of_set (H - {Min H})),
          extra_lasts = map (tail_link graph segment) (sorted_list_of_set (T - {Min T}))\<rparr>)"

text \<open>
  The two assemblies of an annotated chain set side by side. \<open>link_names\<close> are the two
  module names of a link. \<open>details_sorted\<close> holds of an import whose detail records exist
  and have strictly increasing line numbers. \<open>line_numbers_correspond\<close> relates a link of
  the route-based assembly to a link of the pipeline: when the import has detail records,
  the first has their line numbers in the order of the graph and the second has them sorted
  and de-duplicated. \<open>corresponding_route\<close> is the route that
  stands for the same paths as the segment extracted from a chain: its heads and tails are
  the head and tail candidates, its middle the chain without its two ends.
  \<open>assembled_chain\<close> is the shape both assemblies produce, for a given way of making a
  link: with sorted line numbers (\<open>sorted_link\<close>) or with those of \<open>get_line_numbers\<close>
  (\<open>route_link\<close>).
\<close>

definition link_names :: "Link \<Rightarrow> string \<times> string" where
  "link_names l = (importer l, imported l)"

definition details_sorted :: "ImportGraph \<Rightarrow> string \<Rightarrow> string \<Rightarrow> bool" where
  "details_sorted graph a b \<longleftrightarrow>
     get_import_details graph a b \<noteq> []
     \<and> sorted_wrt (<) (map line_number (get_import_details graph a b))"

definition line_numbers_correspond :: "ImportGraph \<Rightarrow> Link \<Rightarrow> Link \<Rightarrow> bool" where
  "line_numbers_correspond graph route_l pipeline_l \<longleftrightarrow>
     (let details = get_import_details graph (importer route_l) (imported route_l)
      in details \<noteq> [] \<longrightarrow>
           Link.line_numbers route_l = map (\<lambda>i. Some (line_number i)) details
           \<and> Link.line_numbers pipeline_l
               = map Some (sorted_list_of_set (set (map line_number details))))"

definition corresponding_route :: "ImportGraph \<Rightarrow> string list \<Rightarrow> Module \<Rightarrow> Module \<Rightarrow> Route" where
  "corresponding_route graph c importer_m imported_m =
     \<lparr>heads = head_candidates graph (build_segment graph c) importer_m,
      middle = butlast (tl c),
      tails = tail_candidates graph (build_segment graph c) imported_m\<rparr>"

definition assembled_chain ::
  "(string \<Rightarrow> string \<Rightarrow> Link) \<Rightarrow> string set \<Rightarrow> string list \<Rightarrow> string set \<Rightarrow> DetailedChain" where
  "assembled_chain mk H mid T =
     \<lparr>chain = mk (Min H) (hd mid) # map (\<lambda>(x, y). mk x y) (pairwise_seq mid)
              @ [mk (last mid) (Min T)],
      extra_firsts = map (\<lambda>m. mk m (hd mid)) (sorted_list_of_set (H - {Min H})),
      extra_lasts = map (\<lambda>m. mk (last mid) m) (sorted_list_of_set (T - {Min T}))\<rparr>"

definition sorted_link :: "ImportGraph \<Rightarrow> string \<Rightarrow> string \<Rightarrow> Link" where
  "sorted_link graph a b =
     \<lparr>importer = a, imported = b,
      Link.line_numbers = sorted_line_numbers (get_import_details graph a b)\<rparr>"

definition route_link :: "ImportGraph \<Rightarrow> string \<Rightarrow> string \<Rightarrow> Link" where
  "route_link graph a b =
     \<lparr>importer = a, imported = b, Link.line_numbers = get_line_numbers a b graph\<rparr>"

subsection \<open>Example inputs\<close>

text \<open>
  The example of the specification (section 8), with one more importer of \<open>c.d\<close> below
  \<open>a\<close> whose line numbers are out of order: the reference graph, the graph with \<open>a\<close>
  squashed that is searched, the segment extracted from it, a graph with a direct import
  only, a single-link segment, an annotated chain with extra firsts and lasts, a graph with
  two paths that share their last import, the route of the example with the annotated
  chains the two assemblies make of it, and a graph built without line numbers with its
  segment, its route and the annotated chains the two assemblies make of it.
\<close>

definition example_graph :: ImportGraph where
  "example_graph =
     [((''a.b'', ''c.d''), [\<lparr>line_number = 3, line_contents = ''import c.d''\<rparr>]),
      ((''c.d'', ''e.f''), [\<lparr>line_number = 7, line_contents = ''import e.f''\<rparr>]),
      ((''x.y'', ''c.d''), [\<lparr>line_number = 4, line_contents = ''import c.d''\<rparr>]),
      ((''e.f'', ''z''), [\<lparr>line_number = 9, line_contents = ''import z''\<rparr>]),
      ((''a.c'', ''c.d''), [\<lparr>line_number = 5, line_contents = ''import c.d''\<rparr>,
                            \<lparr>line_number = 2, line_contents = ''from c import d''\<rparr>])]"

definition example_segment :: Chain where
  "example_segment =
     [\<lparr>importer = ''a'', imported = ''c.d'', Link.line_numbers = []\<rparr>,
      \<lparr>importer = ''c.d'', imported = ''e.f'', Link.line_numbers = [Some 7]\<rparr>,
      \<lparr>importer = ''e.f'', imported = ''z'', Link.line_numbers = [Some 9]\<rparr>]"

definition direct_graph :: ImportGraph where
  "direct_graph = [((''a'', ''b''), [])]"

definition direct_segment :: Chain where
  "direct_segment = [\<lparr>importer = ''a'', imported = ''b'', Link.line_numbers = []\<rparr>]"

definition example_chain_data :: DetailedChain where
  "example_chain_data =
     \<lparr>chain = [\<lparr>importer = ''a.b'', imported = ''c.d'', Link.line_numbers = [Some 3]\<rparr>,
               \<lparr>importer = ''c.d'', imported = ''e.f'', Link.line_numbers = [Some 7]\<rparr>,
               \<lparr>importer = ''e.f'', imported = ''z'', Link.line_numbers = [Some 9]\<rparr>],
      extra_firsts = [\<lparr>importer = ''a.c'', imported = ''c.d'', Link.line_numbers = [Some 2, Some 5]\<rparr>,
                      \<lparr>importer = ''a.d'', imported = ''c.d'', Link.line_numbers = [None]\<rparr>],
      extra_lasts = [\<lparr>importer = ''e.f'', imported = ''z.y'', Link.line_numbers = []\<rparr>]\<rparr>"

definition squashed_graph :: ImportGraph where
  "squashed_graph =
     [((''a'', ''c.d''), []),
      ((''c.d'', ''e.f''), [\<lparr>line_number = 7, line_contents = ''import e.f''\<rparr>]),
      ((''x.y'', ''c.d''), [\<lparr>line_number = 4, line_contents = ''import c.d''\<rparr>]),
      ((''e.f'', ''z''), [\<lparr>line_number = 9, line_contents = ''import z''\<rparr>])]"

definition diamond_graph :: ImportGraph where
  "diamond_graph =
     [((''a'', ''x''), []), ((''x'', ''b''), []), ((''a'', ''y''), []), ((''y'', ''x''), [])]"

definition example_route :: Route where
  "example_route =
     \<lparr>heads = {''a.b'', ''a.c''}, middle = [''c.d'', ''e.f''], tails = {''z''}\<rparr>"

definition example_route_chain_data :: DetailedChain where
  "example_route_chain_data =
     \<lparr>chain = [\<lparr>importer = ''a.b'', imported = ''c.d'', Link.line_numbers = [Some 3]\<rparr>,
               \<lparr>importer = ''c.d'', imported = ''e.f'', Link.line_numbers = [Some 7]\<rparr>,
               \<lparr>importer = ''e.f'', imported = ''z'', Link.line_numbers = [Some 9]\<rparr>],
      extra_firsts = [\<lparr>importer = ''a.c'', imported = ''c.d'',
                       Link.line_numbers = [Some 5, Some 2]\<rparr>],
      extra_lasts = []\<rparr>"

definition example_collapsed_chain_data :: DetailedChain where
  "example_collapsed_chain_data =
     \<lparr>chain = [\<lparr>importer = ''a.b'', imported = ''c.d'', Link.line_numbers = [Some 3]\<rparr>,
               \<lparr>importer = ''c.d'', imported = ''e.f'', Link.line_numbers = [Some 7]\<rparr>,
               \<lparr>importer = ''e.f'', imported = ''z'', Link.line_numbers = [Some 9]\<rparr>],
      extra_firsts = [\<lparr>importer = ''a.c'', imported = ''c.d'',
                       Link.line_numbers = [Some 2, Some 5]\<rparr>],
      extra_lasts = []\<rparr>"

definition manual_graph :: ImportGraph where
  "manual_graph = [((''a'', ''m''), []), ((''m'', ''b''), [])]"

definition manual_segment :: Chain where
  "manual_segment =
     [\<lparr>importer = ''a'', imported = ''m'', Link.line_numbers = []\<rparr>,
      \<lparr>importer = ''m'', imported = ''b'', Link.line_numbers = []\<rparr>]"

definition manual_chain_data :: DetailedChain where
  "manual_chain_data = \<lparr>chain = manual_segment, extra_firsts = [], extra_lasts = []\<rparr>"

definition manual_route :: Route where
  "manual_route = \<lparr>heads = {''a''}, middle = [''m''], tails = {''b''}\<rparr>"

definition manual_route_chain_data :: DetailedChain where
  "manual_route_chain_data =
     \<lparr>chain = [\<lparr>importer = ''a'', imported = ''m'', Link.line_numbers = [None]\<rparr>,
               \<lparr>importer = ''m'', imported = ''b'', Link.line_numbers = [None]\<rparr>],
      extra_firsts = [], extra_lasts = []\<rparr>"

section \<open>Chains and shortest chains\<close>

lemma pairwise_seq_simps [simp]:
  "pairwise_seq [] = []" "pairwise_seq [x] = []" "pairwise_seq (x # y # ys) = (x, y) # pairwise_seq (y # ys)"
  by (simp_all add: pairwise_seq_def)

lemma length_pairwise_seq [simp]: "length (pairwise_seq xs) = length xs - 1"
  by (simp add: pairwise_seq_def)

lemma index_pairs_pairwise_seq:
  "map (\<lambda>i. (c ! i, c ! (i + 1))) [0..<length c - 1] = pairwise_seq c"
  by (rule nth_equalityI) (simp_all add: pairwise_seq_def nth_tl)

lemma pairwise_seq_append:
  "pairwise_seq (xs @ y # zs) = pairwise_seq (xs @ [y]) @ pairwise_seq (y # zs)"
proof (induction xs rule: induct_list012)
  case 1 then show ?case by simp
next
  case (2 x) then show ?case by simp
next
  case (3 x x' xs) then show ?case by simp
qed

lemma is_chain_Cons:
  "is_chain g a b (x # q) \<longleftrightarrow>
     x = a \<and> (if q = [] then a = b else (a, hd q) \<in> direct_imports g \<and> is_chain g (hd q) b q)"
  by (cases q) (auto simp: is_chain_def)

lemma chains_of_length_iff:
  "p \<in> set (chains_of_length g n a b) \<longleftrightarrow> length p = Suc n \<and> is_chain g a b p"
proof (induction n arbitrary: a p)
  case 0
  show ?case by (cases p) (auto simp: is_chain_def)
next
  case (Suc n)
  show ?case
  proof (cases p)
    case Nil
    then show ?thesis by (auto simp: is_chain_def)
  next
    case (Cons x q)
    have "p \<in> set (chains_of_length g (Suc n) a b) \<longleftrightarrow>
          x = a \<and> (\<exists>e\<in>set g. fst (fst e) = a \<and> q \<in> set (chains_of_length g n (snd (fst e)) b))"
      unfolding Cons by auto
    also have "\<dots> \<longleftrightarrow> x = a \<and> (\<exists>e\<in>set g. fst (fst e) = a \<and> length q = Suc n \<and> is_chain g (snd (fst e)) b q)"
      unfolding Suc ..
    also have "\<dots> \<longleftrightarrow> length p = Suc (Suc n) \<and> is_chain g a b p"
    proof (cases q)
      case Nil
      then show ?thesis unfolding Cons by (simp add: is_chain_def)
    next
      case (Cons y r)
      have "(\<exists>e\<in>set g. fst (fst e) = a \<and> is_chain g (snd (fst e)) b (y # r))
            \<longleftrightarrow> (a, y) \<in> direct_imports g \<and> is_chain g y b (y # r)"
        unfolding direct_imports_def is_chain_def by force
      then show ?thesis unfolding \<open>p = x # q\<close> Cons is_chain_Cons [of g a b x] by auto
    qed
    finally show ?thesis .
  qed
qed

lemma is_chain_shortcut:
  assumes "is_chain g a b p" "\<not> distinct p"
  shows "\<exists>q. is_chain g a b q \<and> length q < length p"
proof -
  from not_distinct_decomp [OF assms(2)]
  obtain xs ys zs y where p: "p = xs @ [y] @ ys @ [y] @ zs" by blast
  let ?q = "xs @ y # zs"
  have "set (pairwise_seq ?q) \<subseteq> set (pairwise_seq p)"
  proof -
    have "pairwise_seq p = pairwise_seq (xs @ [y]) @ pairwise_seq (y # ys @ [y]) @ pairwise_seq (y # zs)"
      unfolding p using pairwise_seq_append [of xs y "ys @ y # zs"] pairwise_seq_append [of "y # ys" y zs]
      by simp
    then show ?thesis using pairwise_seq_append [of xs y zs] by auto
  qed
  moreover have "hd ?q = hd p" unfolding p by (cases xs) auto
  moreover have "last ?q = last p" unfolding p by auto
  ultimately have "is_chain g a b ?q" using assms(1) unfolding is_chain_def by auto
  moreover have "length ?q < length p" unfolding p by simp
  ultimately show ?thesis by blast
qed

lemma is_chain_distinct_length:
  assumes "is_chain g a b p" "distinct p"
  shows "length p \<le> Suc (length g)"
proof -
  have "distinct (pairwise_seq p)" unfolding pairwise_seq_def using assms(2) by (rule distinct_zipI1)
  then have "length (pairwise_seq p) = card (set (pairwise_seq p))" by (simp add: distinct_card)
  also have "\<dots> \<le> card (direct_imports g)"
    using assms(1) unfolding is_chain_def direct_imports_def by (intro card_mono) auto
  also have "\<dots> \<le> length g" unfolding direct_imports_def
    using card_length [of "map fst g"] by simp
  finally show ?thesis by simp
qed

lemma shortest_chain_exists:
  assumes "is_chain g a b p"
  shows "\<exists>q. is_chain g a b q \<and> distinct q \<and> length q \<le> length p
            \<and> (\<forall>r. is_chain g a b r \<longrightarrow> length q \<le> length r)"
proof -
  define m where "m = (LEAST n. \<exists>q. is_chain g a b q \<and> length q = n)"
  have ex: "\<exists>q. is_chain g a b q \<and> length q = length p" using assms by blast
  from LeastI_ex [of "\<lambda>n. \<exists>q. is_chain g a b q \<and> length q = n", OF exI, OF ex]
  obtain q where q: "is_chain g a b q" "length q = m" unfolding m_def by blast
  have least: "m \<le> length r" if "is_chain g a b r" for r
    unfolding m_def using that by (intro Least_le) blast
  have "distinct q"
  proof (rule ccontr)
    assume "\<not> distinct q"
    from is_chain_shortcut [OF q(1) this] obtain q' where "is_chain g a b q'" "length q' < length q"
      by blast
    with least [of q'] q(2) show False by simp
  qed
  with q least assms show ?thesis by auto
qed

lemma find_upt_Some:
  "List.find P [0..<m] = Some n \<Longrightarrow> n < m \<and> P n \<and> (\<forall>k<n. \<not> P k)"
  by (auto simp: find_Some_iff)

lemma find_upt_None: "List.find P [0..<m] = None \<longleftrightarrow> (\<forall>k<m. \<not> P k)"
  by (auto simp: find_None_iff)

lemma find_shortest_chain_Some:
  assumes "find_shortest_chain g a b = Some p"
  shows "is_chain g a b p \<and> (\<forall>q. is_chain g a b q \<longrightarrow> length p \<le> length q)"
proof -
  from assms obtain n where
    f: "List.find (\<lambda>n. chains_of_length g n a b \<noteq> []) [0..<Suc (length g)] = Some n"
    and p: "p = hd (chains_of_length g n a b)"
    unfolding find_shortest_chain_def by (auto split: option.splits)
  from find_upt_Some [OF f] have ne: "chains_of_length g n a b \<noteq> []"
    and first: "\<And>k. k < n \<Longrightarrow> chains_of_length g k a b = []"
    by auto
  from ne p have "p \<in> set (chains_of_length g n a b)" by simp
  then have len: "length p = Suc n" and ch: "is_chain g a b p"
    by (simp_all add: chains_of_length_iff)
  have "length p \<le> length q" if "is_chain g a b q" for q
  proof (rule ccontr)
    assume "\<not> length p \<le> length q"
    from that have "q \<noteq> []" by (simp add: is_chain_def)
    then have lq: "length q = Suc (length q - 1)" by simp
    with \<open>\<not> length p \<le> length q\<close> len have lt: "length q - 1 < n" by simp
    from lq that have "q \<in> set (chains_of_length g (length q - 1) a b)"
      by (simp add: chains_of_length_iff)
    with first [OF lt] show False by simp
  qed
  with ch show ?thesis by blast
qed

lemma find_shortest_chain_distinct:
  assumes "find_shortest_chain g a b = Some p"
  shows "distinct p"
proof (rule ccontr)
  assume "\<not> distinct p"
  from find_shortest_chain_Some [OF assms] is_chain_shortcut [OF _ this]
  show False by fastforce
qed

lemma find_shortest_chain_None:
  "find_shortest_chain g a b = None \<longleftrightarrow> (\<forall>p. \<not> is_chain g a b p)"
proof
  assume n: "find_shortest_chain g a b = None"
  show "\<forall>p. \<not> is_chain g a b p"
  proof (intro allI notI)
    fix p assume "is_chain g a b p"
    from shortest_chain_exists [OF this] obtain q where
      q: "is_chain g a b q" "distinct q" by blast
    from q have "q \<noteq> []" by (simp add: is_chain_def)
    then have l: "length q = Suc (length q - 1)" by simp
    with q(1) have m: "q \<in> set (chains_of_length g (length q - 1) a b)"
      by (simp add: chains_of_length_iff)
    from is_chain_distinct_length [OF q] have "length q - 1 < Suc (length g)" by simp
    moreover from n have "List.find (\<lambda>n. chains_of_length g n a b \<noteq> []) [0..<Suc (length g)] = None"
      unfolding find_shortest_chain_def by (simp split: option.splits)
    ultimately show False using m unfolding find_upt_None by fastforce
  qed
next
  assume a: "\<forall>p. \<not> is_chain g a b p"
  show "find_shortest_chain g a b = None"
  proof (cases "find_shortest_chain g a b")
    case None then show ?thesis .
  next
    case (Some p)
    from find_shortest_chain_Some [OF this] a show ?thesis by blast
  qed
qed

section \<open>The pop loop\<close>

lemma fold_filter_fst:
  "fold (\<lambda>p. filter (\<lambda>e. fst e \<noteq> p)) ps g = filter (\<lambda>e. fst e \<notin> set ps) g"
  by (induction ps arbitrary: g) (auto intro: filter_cong)

lemma fold_remove_import:
  "fold (\<lambda>(x, y) g. remove_import g x y) ps g = filter (\<lambda>e. fst e \<notin> set ps) g"
proof -
  have "(\<lambda>(x, y) g. remove_import g x y) = (\<lambda>p. filter (\<lambda>e. fst e \<noteq> p))"
    by (auto simp: fun_eq_iff remove_import_def)
  then show ?thesis by (simp add: fold_filter_fst)
qed

lemma remove_chain_filter:
  "remove_chain g c = filter (\<lambda>e. fst e \<notin> set (pairwise_seq c)) g"
proof -
  have "remove_chain g c
        = fold (\<lambda>(x, y) g. remove_import g x y) (map (\<lambda>i. (c ! i, c ! (i + 1))) [0..<length c - 1]) g"
    unfolding remove_chain_def fold_map by (simp add: comp_def)
  then show ?thesis unfolding index_pairs_pairwise_seq fold_remove_import .
qed

lemma direct_imports_remove_chain:
  "direct_imports (remove_chain g c) = direct_imports g - set (pairwise_seq c)"
  unfolding remove_chain_filter direct_imports_def by auto

lemma length_remove_chain_less:
  assumes "is_chain g a b c" "a \<noteq> b"
  shows "length (remove_chain g c) < length g"
proof -
  from assms obtain x y r where c: "c = x # y # r"
    unfolding is_chain_def by (cases c; cases "tl c") auto
  with assms(1) have "(x, y) \<in> direct_imports g" unfolding is_chain_def by auto
  then obtain e where "e \<in> set g" "fst e = (x, y)" unfolding direct_imports_def by auto
  then show ?thesis unfolding remove_chain_filter c
    by (intro length_filter_less [of e]) auto
qed

lemma find_shortest_chain_self: "find_shortest_chain g a a = Some [a]"
  unfolding find_shortest_chain_def by (simp add: upt_rec [of 0])

lemma remove_chain_single [simp]: "remove_chain g [a] = g"
  by (simp add: remove_chain_def)

lemmas pop_shortest_chains_induct =
  pop_shortest_chains.raw_induct [rotated, consumes 1, case_names step]

lemma pop_shortest_chains_Some_distinct:
  "pop_shortest_chains g a b = Some y \<Longrightarrow> a \<noteq> b"
proof (induction rule: pop_shortest_chains_induct)
  case (step pop g a b y)
  show ?case
  proof
    assume "a = b"
    with step(2) have "pop g a a \<bind> (\<lambda>(cs, g'). Some ([a] # cs, g')) = Some y"
      by (simp add: find_shortest_chain_self)
    then obtain z where "pop g a a = Some z"
      by (cases "pop g a a") auto
    from step(1) [OF this] show False by simp
  qed
qed

lemma pop_shortest_chains_self: "pop_shortest_chains g a a = None"
  using pop_shortest_chains_Some_distinct [of g a a] by (cases "pop_shortest_chains g a a") auto

lemma pop_shortest_chains_terminates:
  "a \<noteq> b \<Longrightarrow> \<exists>y. pop_shortest_chains g a b = Some y"
proof (induction "length g" arbitrary: g rule: less_induct)
  case less
  show ?case
  proof (cases "find_shortest_chain g a b")
    case None
    then show ?thesis by (simp add: pop_shortest_chains.simps)
  next
    case (Some c)
    from find_shortest_chain_Some [OF Some] have ch: "is_chain g a b c" by blast
    then have "c \<noteq> []" by (simp add: is_chain_def)
    from length_remove_chain_less [OF ch less(2)] less(1) [OF _ less(2)]
    obtain y where "pop_shortest_chains (remove_chain g c) a b = Some y" by blast
    with Some \<open>c \<noteq> []\<close> show ?thesis
      by (subst pop_shortest_chains.simps) (auto split: prod.splits)
  qed
qed

lemma pop_shortest_chains_valid:
  "pop_shortest_chains g a b = Some y \<Longrightarrow>
     valid_pops g a b (fst y) \<and> snd y = foldl remove_chain g (fst y)"
proof (induction rule: pop_shortest_chains_induct)
  case (step pop g a b y)
  show ?case
  proof (cases "find_shortest_chain g a b")
    case None
    with step(2) show ?thesis by (auto simp: find_shortest_chain_None)
  next
    case (Some c)
    from find_shortest_chain_Some [OF Some] have ch: "is_chain g a b c"
      and sh: "\<forall>q. is_chain g a b q \<longrightarrow> length c \<le> length q" by blast+
    then have "c \<noteq> []" by (simp add: is_chain_def)
    with step(2) Some obtain cs g' where r: "pop (remove_chain g c) a b = Some (cs, g')"
      and y: "y = (c # cs, g')"
      by (auto split: Option.bind_splits)
    from step(1) [OF r] ch sh show ?thesis unfolding y by simp
  qed
qed

lemma direct_imports_foldl_remove_chain:
  "direct_imports (foldl remove_chain g cs) = direct_imports g - set (concat (map pairwise_seq cs))"
  by (induction cs arbitrary: g) (auto simp: direct_imports_remove_chain)

lemma is_chain_mono:
  "is_chain g a b p \<Longrightarrow> direct_imports g \<subseteq> direct_imports g' \<Longrightarrow> is_chain g' a b p"
  unfolding is_chain_def by auto

lemma shortest_chain_distinct:
  assumes "is_chain g a b c" "\<forall>q. is_chain g a b q \<longrightarrow> length c \<le> length q"
  shows "distinct c"
proof (rule ccontr)
  assume "\<not> distinct c"
  from is_chain_shortcut [OF assms(1) this] assms(2) show False by fastforce
qed

lemma valid_pops_edges:
  assumes "valid_pops g a b cs"
  shows "set (concat (map pairwise_seq cs)) \<subseteq> direct_imports g
         \<and> distinct (concat (map pairwise_seq cs))
         \<and> (\<forall>c\<in>set cs. is_chain g a b c)"
  using assms
proof (induction cs arbitrary: g)
  case Nil
  show ?case by simp
next
  case (Cons c cs)
  from Cons.prems have ch: "is_chain g a b c"
    and sh: "\<forall>q. is_chain g a b q \<longrightarrow> length c \<le> length q"
    and rest: "valid_pops (remove_chain g c) a b cs" by simp_all
  from Cons.IH [OF rest] have
    sub: "set (concat (map pairwise_seq cs)) \<subseteq> direct_imports g - set (pairwise_seq c)"
    and dist: "distinct (concat (map pairwise_seq cs))"
    and chains: "\<forall>c'\<in>set cs. is_chain (remove_chain g c) a b c'"
    by (simp_all add: direct_imports_remove_chain)
  have "distinct (pairwise_seq c)"
    unfolding pairwise_seq_def using shortest_chain_distinct [OF ch sh] by (rule distinct_zipI1)
  moreover from ch have "set (pairwise_seq c) \<subseteq> direct_imports g" by (simp add: is_chain_def)
  moreover have "\<forall>c'\<in>set cs. is_chain g a b c'"
    using chains is_chain_mono [of "remove_chain g c" a b _ g]
    by (auto simp: direct_imports_remove_chain)
  ultimately show ?case using sub dist ch by auto
qed

lemma graph_before_simps [simp]:
  "graph_before g cs 0 = g"
  "graph_before g (c # cs) (Suc i) = graph_before (remove_chain g c) cs i"
  by (simp_all add: graph_before_def)

lemma graph_before_Suc:
  "i < length cs \<Longrightarrow> graph_before g cs (Suc i) = remove_chain (graph_before g cs i) (cs ! i)"
  by (simp add: graph_before_def take_Suc_conv_app_nth)

lemma valid_pops_steps:
  assumes "valid_pops g a b cs"
  shows "(\<forall>i<length cs. is_chain (graph_before g cs i) a b (cs ! i)
            \<and> (\<forall>q. is_chain (graph_before g cs i) a b q \<longrightarrow> length (cs ! i) \<le> length q))
         \<and> (\<forall>p. \<not> is_chain (graph_before g cs (length cs)) a b p)"
  using assms
proof (induction cs arbitrary: g)
  case Nil
  then show ?case by simp
next
  case (Cons c cs)
  from Cons.prems have rest: "valid_pops (remove_chain g c) a b cs" by simp
  note ih = Cons.IH [OF rest]
  show ?case
  proof (intro conjI allI impI)
    fix i assume "i < length (c # cs)"
    then show "is_chain (graph_before g (c # cs) i) a b ((c # cs) ! i)"
      using Cons.prems ih by (cases i) auto
  next
    fix i q assume "i < length (c # cs)" "is_chain (graph_before g (c # cs) i) a b q"
    then show "length ((c # cs) ! i) \<le> length q"
      using Cons.prems ih by (cases i) auto
  next
    fix p show "\<not> is_chain (graph_before g (c # cs) (length (c # cs))) a b p"
      using ih by simp
  qed
qed

lemmas find_segments_loop_induct =
  find_segments_loop.raw_induct [rotated, consumes 1, case_names step]

lemma find_segments_loop_of_pop:
  assumes "pop_shortest_chains g a b = Some y"
  shows "\<exists>g''. find_segments_loop g ref a b
           = Some (g'', if \<exists>c\<in>set (fst y). length c = 2 then Inl ValueError
                        else Inr (map (build_segment ref) (fst y)))"
  using assms
proof (induction rule: pop_shortest_chains_induct)
  case (step pop g a b y)
  show ?case
  proof (cases "find_shortest_chain g a b")
    case None
    with step(2) show ?thesis by (subst find_segments_loop.simps) auto
  next
    case (Some c)
    from find_shortest_chain_Some [OF Some] have "c \<noteq> []" by (simp add: is_chain_def)
    with step(2) Some obtain cs g' where r: "pop (remove_chain g c) a b = Some (cs, g')"
      and y: "y = (c # cs, g')"
      by (auto split: Option.bind_splits)
    from step(1) [OF r] obtain g'' where
      ih: "find_segments_loop (remove_chain g c) ref a b
           = Some (g'', if \<exists>c\<in>set cs. length c = 2 then Inl ValueError
                        else Inr (map (build_segment ref) cs))" by auto
    show ?thesis
      by (subst find_segments_loop.simps) (simp add: Some \<open>c \<noteq> []\<close> y ih)
  qed
qed

lemma find_segments_loop_Inr:
  assumes "find_segments_loop g ref a b = Some y"
  shows "\<forall>segs. snd y = Inr segs \<longrightarrow>
           (\<exists>cs. pop_shortest_chains g a b = Some (cs, fst y)
                 \<and> segs = map (build_segment ref) cs \<and> (\<forall>c\<in>set cs. 3 \<le> length c))"
  using assms
proof (induction rule: find_segments_loop_induct)
  case (step loop g ref a b y)
  show ?case
  proof (cases "find_shortest_chain g a b")
    case None
    with step(2) show ?thesis by (subst pop_shortest_chains.simps) auto
  next
    case (Some c)
    from find_shortest_chain_Some [OF Some] have ch: "is_chain g a b c" by blast
    then have ne: "c \<noteq> []" by (simp add: is_chain_def)
    show ?thesis
    proof (intro allI impI)
      fix segs assume inr: "snd y = Inr segs"
      with step(2) Some ne have l2: "length c \<noteq> 2" by (auto split: if_splits)
      with step(2) Some ne obtain g'' r where
        rec: "loop (remove_chain g c) ref a b = Some (g'', r)"
        and y: "y = (g'', case r of Inl e \<Rightarrow> Inl e
                          | Inr segments \<Rightarrow> Inr (build_segment ref c # segments))"
        by (auto split: Option.bind_splits)
      from inr y obtain segs' where r: "r = Inr segs'" and segs: "segs = build_segment ref c # segs'"
        by (cases r) auto
      from step(1) [OF rec] r obtain cs where
        p: "pop_shortest_chains (remove_chain g c) a b = Some (cs, g'')"
        and s: "segs' = map (build_segment ref) cs" and l: "\<forall>c\<in>set cs. 3 \<le> length c"
        by auto
      from pop_shortest_chains_Some_distinct [OF p] have "a \<noteq> b" .
      with ch have "length c \<noteq> 1" unfolding is_chain_def by (cases c) auto
      with ne l2 have "3 \<le> length c" by (cases c; cases "tl c"; cases "tl (tl c)") auto
      moreover have "pop_shortest_chains g a b = Some (c # cs, g'')"
        by (subst pop_shortest_chains.simps) (simp add: Some ne p)
      ultimately show "\<exists>cs. pop_shortest_chains g a b = Some (cs, fst y)
                 \<and> segs = map (build_segment ref) cs \<and> (\<forall>c\<in>set cs. 3 \<le> length c)"
        using y segs s l by (intro exI [of _ "c # cs"]) auto
    qed
  qed
qed

lemma length_build_segment [simp]: "length (build_segment ref c) = length c - 1"
  by (simp add: build_segment_def)

lemma build_segment_links:
  "l \<in> set (build_segment ref c) \<Longrightarrow>
     Link.line_numbers l = sorted_line_numbers (get_import_details ref (importer l) (imported l))"
  by (auto simp: build_segment_def)

lemma find_shortest_chain_direct:
  assumes "a \<noteq> b" "(a, b) \<in> direct_imports g"
  shows "find_shortest_chain g a b = Some [a, b]"
proof -
  have ch: "is_chain g a b [a, b]" using assms(2) by (simp add: is_chain_def)
  then obtain c where c: "find_shortest_chain g a b = Some c"
    using find_shortest_chain_None [of g a b] by (cases "find_shortest_chain g a b") auto
  from find_shortest_chain_Some [OF c] ch have "is_chain g a b c" "length c \<le> 2" by auto
  with assms(1) have "c = [a, b]"
    unfolding is_chain_def by (cases c; cases "tl c"; cases "tl (tl c)") auto
  with c show ?thesis by simp
qed

lemma find_segments_loop_direct:
  assumes "a \<noteq> b" "(a, b) \<in> direct_imports g"
  shows "find_segments_loop g ref a b = Some (remove_import g a b, Inl ValueError)"
  by (subst find_segments_loop.simps)
     (simp add: find_shortest_chain_direct [OF assms] remove_chain_def)

subsection \<open>Runs on the example graphs\<close>

lemma diamond_shortest:
  "find_shortest_chain diamond_graph ''a'' ''b'' = Some [''a'', ''x'', ''b'']"
  by code_simp

lemma diamond_shortest2:
  "find_shortest_chain [((''a'', ''y''), []), ((''y'', ''x''), [])] ''a'' ''b'' = None"
  by code_simp

lemma diamond_remove:
  "remove_chain diamond_graph [''a'', ''x'', ''b''] = [((''a'', ''y''), []), ((''y'', ''x''), [])]"
  by code_simp

lemma diamond_pop:
  "pop_shortest_chains diamond_graph ''a'' ''b''
   = Some ([[''a'', ''x'', ''b'']], [((''a'', ''y''), []), ((''y'', ''x''), [])])"
  by (simp add: pop_shortest_chains.simps diamond_shortest diamond_remove diamond_shortest2)

lemma squashed_find_segments:
  "find_segments squashed_graph example_graph (Module ''a'') (Module ''z'')
   = Some ([((''x.y'', ''c.d''), [\<lparr>line_number = 4, line_contents = ''import c.d''\<rparr>])],
           Inr [example_segment])"
  unfolding find_segments_def
  apply (subst find_segments_loop.simps)
  apply (subst find_segments_loop.simps)
  apply code_simp
  done

lemma direct_find_segments:
  "find_segments direct_graph direct_graph (Module ''a'') (Module ''b'') = Some ([], Inl ValueError)"
  unfolding find_segments_def
  apply (subst find_segments_loop.simps)
  apply code_simp
  done

lemma direct_pop:
  "pop_shortest_chains direct_graph ''a'' ''b'' = Some ([[''a'', ''b'']], [])"
  apply (subst pop_shortest_chains.simps)
  apply (subst pop_shortest_chains.simps)
  apply code_simp
  done

lemma squashed_pop:
  "pop_shortest_chains squashed_graph ''a'' ''z''
   = Some ([[''a'', ''c.d'', ''e.f'', ''z'']],
           [((''x.y'', ''c.d''), [\<lparr>line_number = 4, line_contents = ''import c.d''\<rparr>])])"
  apply (subst pop_shortest_chains.simps)
  apply (subst pop_shortest_chains.simps)
  apply code_simp
  done

lemma example_segment_build:
  "build_segment example_graph [''a'', ''c.d'', ''e.f'', ''z''] = example_segment"
  by code_simp

section \<open>Properties of the pop loop\<close>

lemma on_path_edges_chain:
  "is_chain g a b c \<Longrightarrow> set (pairwise_seq c) \<subseteq> on_path_edges g a b"
  unfolding on_path_edges_def by auto

lemma diamond_on_path: "(''a'', ''y'') \<in> on_path_edges diamond_graph ''a'' ''b''"
proof -
  have "is_chain diamond_graph ''a'' ''b'' [''a'', ''y'', ''x'', ''b'']"
    by (simp add: is_chain_def diamond_graph_def direct_imports_def)
  then show ?thesis unfolding on_path_edges_def by force
qed

text \<open>
  Claim C1, as the code has it. The loop stops when importer and imported differ. The
  imports it removes are exactly the imports of the chains it yields; each of them lies on
  some chain from importer to imported of the graph as it was before any removal, and none
  is removed or reported twice, so that the chains yielded share no import. The removed
  imports need not be all the imports that lay on such a chain.
\<close>

theorem pop_shortest_chains_removed_edges:
  "(a \<noteq> b \<longrightarrow> (\<exists>cs g'. pop_shortest_chains graph a b = Some (cs, g')))
   \<and> (\<forall>cs g'. pop_shortest_chains graph a b = Some (cs, g') \<longrightarrow>
         direct_imports graph - direct_imports g' = set (concat (map pairwise_seq cs))
         \<and> set (concat (map pairwise_seq cs)) \<subseteq> on_path_edges graph a b
         \<and> distinct (concat (map pairwise_seq cs)))"
proof (intro conjI allI impI)
  assume "a \<noteq> b"
  from pop_shortest_chains_terminates [OF this, of graph]
  show "\<exists>cs g'. pop_shortest_chains graph a b = Some (cs, g')" by auto
next
  fix cs g' assume p: "pop_shortest_chains graph a b = Some (cs, g')"
  from pop_shortest_chains_valid [OF p] have v: "valid_pops graph a b cs"
    and g': "g' = foldl remove_chain graph cs" by simp_all
  note e = valid_pops_edges [OF v]
  from e show "direct_imports graph - direct_imports g' = set (concat (map pairwise_seq cs))"
    unfolding g' direct_imports_foldl_remove_chain by blast
  from e on_path_edges_chain [of graph a b]
  show "set (concat (map pairwise_seq cs)) \<subseteq> on_path_edges graph a b" by auto
  from e show "distinct (concat (map pairwise_seq cs))" by blast
qed

theorem pop_shortest_chains_removed_edges_witness:
  "''a'' \<noteq> ''b''
   \<and> pop_shortest_chains diamond_graph ''a'' ''b''
       = Some ([[''a'', ''x'', ''b'']], [((''a'', ''y''), []), ((''y'', ''x''), [])])
   \<and> direct_imports diamond_graph - direct_imports [((''a'', ''y''), []), ((''y'', ''x''), [])]
       = set (concat (map pairwise_seq [[''a'', ''x'', ''b'']]))
   \<and> set (concat (map pairwise_seq [[''a'', ''x'', ''b'']])) \<subseteq> on_path_edges diamond_graph ''a'' ''b''
   \<and> distinct (concat (map pairwise_seq [[''a'', ''x'', ''b'']]))"
  using pop_shortest_chains_removed_edges [of "''a''" "''b''" diamond_graph] diamond_pop
  by simp

text \<open>
  Claim C1 as stated fails: in the graph with the imports \<open>a -> x\<close>, \<open>x -> b\<close>, \<open>a -> y\<close>
  and \<open>y -> x\<close>, which has no direct import \<open>a -> b\<close>, the loop yields the chain
  \<open>a, x, b\<close> and stops; the import \<open>a -> y\<close> lay on the chain \<open>a, y, x, b\<close> and is never
  removed.
\<close>

theorem removed_edges_not_all_path_edges:
  "(''a'', ''b'') \<notin> direct_imports diamond_graph
   \<and> pop_shortest_chains diamond_graph ''a'' ''b''
       = Some ([[''a'', ''x'', ''b'']], [((''a'', ''y''), []), ((''y'', ''x''), [])])
   \<and> (''a'', ''y'') \<in> on_path_edges diamond_graph ''a'' ''b''
   \<and> (''a'', ''y'') \<notin> set (concat (map pairwise_seq [[''a'', ''x'', ''b'']]))
   \<and> set (concat (map pairwise_seq (fst (the (pop_shortest_chains diamond_graph ''a'' ''b'')))))
       \<noteq> on_path_edges diamond_graph ''a'' ''b''"
proof -
  have 1: "(''a'', ''b'') \<notin> direct_imports diamond_graph"
    by (simp add: diamond_graph_def direct_imports_def)
  have 2: "(''a'', ''y'') \<notin> set (concat (map pairwise_seq [[''a'', ''x'', ''b'']]))" by simp
  from 2 diamond_on_path
  have "set (concat (map pairwise_seq [[''a'', ''x'', ''b'']])) \<noteq> on_path_edges diamond_graph ''a'' ''b''"
    by blast
  with 1 2 diamond_on_path diamond_pop show ?thesis by simp
qed

text \<open>
  Claim C2, for an importer and an imported module that differ. The loop stops and yields
  finitely many chains. Each chain is a shortest chain of the graph at the moment it is
  found; the graph of the next search is that graph without the imports of the chain, none
  of which is left; and the graph the loop ends on has no chain from importer to imported.
\<close>

theorem pop_shortest_chains_run:
  assumes "a \<noteq> b"
  shows "\<exists>cs g'. pop_shortest_chains graph a b = Some (cs, g')
     \<and> (\<forall>i<length cs.
           is_chain (graph_before graph cs i) a b (cs ! i)
           \<and> (\<forall>q. is_chain (graph_before graph cs i) a b q \<longrightarrow> length (cs ! i) \<le> length q)
           \<and> graph_before graph cs (Suc i) = remove_chain (graph_before graph cs i) (cs ! i)
           \<and> set (pairwise_seq (cs ! i)) \<inter> direct_imports (graph_before graph cs (Suc i)) = {})
     \<and> g' = graph_before graph cs (length cs)
     \<and> (\<forall>p. \<not> is_chain g' a b p)"
proof -
  from pop_shortest_chains_terminates [OF assms, of graph]
  obtain cs g' where p: "pop_shortest_chains graph a b = Some (cs, g')" by auto
  from pop_shortest_chains_valid [OF p] have v: "valid_pops graph a b cs"
    and g': "g' = graph_before graph cs (length cs)" by (simp_all add: graph_before_def)
  note s = valid_pops_steps [OF v]
  have r: "graph_before graph cs (Suc i) = remove_chain (graph_before graph cs i) (cs ! i)
        \<and> set (pairwise_seq (cs ! i)) \<inter> direct_imports (graph_before graph cs (Suc i)) = {}"
    if "i < length cs" for i
    using graph_before_Suc [OF that, of graph] by (auto simp: direct_imports_remove_chain)
  have "\<forall>i<length cs.
           is_chain (graph_before graph cs i) a b (cs ! i)
           \<and> (\<forall>q. is_chain (graph_before graph cs i) a b q \<longrightarrow> length (cs ! i) \<le> length q)
           \<and> graph_before graph cs (Suc i) = remove_chain (graph_before graph cs i) (cs ! i)
           \<and> set (pairwise_seq (cs ! i)) \<inter> direct_imports (graph_before graph cs (Suc i)) = {}"
    using s r by blast
  moreover from s g' have "\<forall>p. \<not> is_chain g' a b p" by simp
  ultimately show ?thesis using p g' by blast
qed

lemma diamond_run_chain: "is_chain diamond_graph ''a'' ''b'' [''a'', ''x'', ''b'']"
  by (simp add: is_chain_def diamond_graph_def direct_imports_def)

theorem pop_shortest_chains_run_witness:
  "''a'' \<noteq> ''b''
   \<and> pop_shortest_chains diamond_graph ''a'' ''b''
       = Some ([[''a'', ''x'', ''b'']], [((''a'', ''y''), []), ((''y'', ''x''), [])])
   \<and> is_chain (graph_before diamond_graph [[''a'', ''x'', ''b'']] 0) ''a'' ''b'' [''a'', ''x'', ''b'']
   \<and> graph_before diamond_graph [[''a'', ''x'', ''b'']] 1 = [((''a'', ''y''), []), ((''y'', ''x''), [])]
   \<and> \<not> is_chain [((''a'', ''y''), []), ((''y'', ''x''), [])] ''a'' ''b'' [''a'', ''y'', ''x'', ''b'']"
proof -
  have ne: "''a'' \<noteq> ''b''" by simp
  from pop_shortest_chains_run [OF ne, of diamond_graph] diamond_pop
  have "\<forall>p. \<not> is_chain [((''a'', ''y''), []), ((''y'', ''x''), [])] ''a'' ''b'' p"
    and "graph_before diamond_graph [[''a'', ''x'', ''b'']] 1 = [((''a'', ''y''), []), ((''y'', ''x''), [])]"
    by auto
  with diamond_pop diamond_run_chain show ?thesis by simp
qed

text \<open>
  Claim C2 as stated fails when importer and imported are the same module: the shortest
  chain is then the module alone, no import is removed, and the generator yields the same
  chain for ever.
\<close>

theorem pop_shortest_chains_same_module_never_ends:
  "find_shortest_chain diamond_graph ''a'' ''a'' = Some [''a'']
   \<and> remove_chain diamond_graph [''a''] = diamond_graph
   \<and> pop_shortest_chains diamond_graph ''a'' ''a'' = None"
  by (simp add: find_shortest_chain_self pop_shortest_chains_self)

section \<open>Properties of chain extraction\<close>

text \<open>
  Claim C3. When a chain of exactly two modules is among the chains popped,
  \<open>find_segments\<close> raises \<open>ValueError\<close>; this is what happens when importer and imported
  differ and the graph has the direct import. Conversely, every segment it returns is built
  from a popped chain of at least three modules, and so has at least two links.
\<close>

theorem find_segments_direct_chain:
  "(\<forall>cs g'. pop_shortest_chains graph (name importer_m) (name imported_m) = Some (cs, g')
        \<and> (\<exists>c\<in>set cs. length c = 2)
      \<longrightarrow> (\<exists>g''. find_segments graph reference_graph importer_m imported_m
                    = Some (g'', Inl ValueError)))
   \<and> (name importer_m \<noteq> name imported_m
        \<and> (name importer_m, name imported_m) \<in> direct_imports graph
      \<longrightarrow> find_segments graph reference_graph importer_m imported_m
            = Some (remove_import graph (name importer_m) (name imported_m), Inl ValueError))
   \<and> (\<forall>g'' segments.
        find_segments graph reference_graph importer_m imported_m = Some (g'', Inr segments)
      \<longrightarrow> (\<exists>cs. pop_shortest_chains graph (name importer_m) (name imported_m) = Some (cs, g'')
                \<and> segments = map (build_segment reference_graph) cs
                \<and> (\<forall>c\<in>set cs. 3 \<le> length c))
          \<and> (\<forall>segment\<in>set segments. 2 \<le> length segment))"
proof -
  have 1: "\<exists>g''. find_segments graph reference_graph importer_m imported_m
                = Some (g'', Inl ValueError)"
    if "pop_shortest_chains graph (name importer_m) (name imported_m) = Some (cs, g')
        \<and> (\<exists>c\<in>set cs. length c = 2)" for cs g'
    using that find_segments_loop_of_pop
      [of graph "name importer_m" "name imported_m" "(cs, g')" reference_graph]
    by (auto simp: find_segments_def)
  have 2: "find_segments graph reference_graph importer_m imported_m
            = Some (remove_import graph (name importer_m) (name imported_m), Inl ValueError)"
    if "name importer_m \<noteq> name imported_m
        \<and> (name importer_m, name imported_m) \<in> direct_imports graph"
    using that by (simp add: find_segments_def find_segments_loop_direct)
  have 3: "(\<exists>cs. pop_shortest_chains graph (name importer_m) (name imported_m) = Some (cs, g'')
                \<and> segments = map (build_segment reference_graph) cs
                \<and> (\<forall>c\<in>set cs. 3 \<le> length c))
          \<and> (\<forall>segment\<in>set segments. 2 \<le> length segment)"
    if r: "find_segments graph reference_graph importer_m imported_m = Some (g'', Inr segments)"
    for g'' segments
  proof -
    from find_segments_loop_Inr [OF r [unfolded find_segments_def]]
    obtain cs where cs:
      "pop_shortest_chains graph (name importer_m) (name imported_m) = Some (cs, g'')"
      "segments = map (build_segment reference_graph) cs" "\<forall>c\<in>set cs. 3 \<le> length c"
      by auto
    from cs(2,3) have "\<forall>segment\<in>set segments. 2 \<le> length segment" by auto
    with cs show ?thesis by blast
  qed
  from 1 2 3 show ?thesis by blast
qed

theorem find_segments_direct_chain_witness:
  "pop_shortest_chains direct_graph ''a'' ''b'' = Some ([[''a'', ''b'']], [])
   \<and> length [''a'', ''b''] = 2
   \<and> (''a'', ''b'') \<in> direct_imports direct_graph
   \<and> find_segments direct_graph direct_graph (Module ''a'') (Module ''b'')
       = Some (remove_import direct_graph ''a'' ''b'', Inl ValueError)
   \<and> find_segments squashed_graph example_graph (Module ''a'') (Module ''z'')
       = Some ([((''x.y'', ''c.d''), [\<lparr>line_number = 4, line_contents = ''import c.d''\<rparr>])],
               Inr [example_segment])
   \<and> pop_shortest_chains squashed_graph ''a'' ''z''
       = Some ([[''a'', ''c.d'', ''e.f'', ''z'']],
               [((''x.y'', ''c.d''), [\<lparr>line_number = 4, line_contents = ''import c.d''\<rparr>])])
   \<and> 3 \<le> length [''a'', ''c.d'', ''e.f'', ''z'']
   \<and> 2 \<le> length example_segment"
proof -
  have d: "(''a'', ''b'') \<in> direct_imports direct_graph"
    by (simp add: direct_graph_def direct_imports_def)
  from find_segments_direct_chain
    [of direct_graph "Module ''a''" "Module ''b''" direct_graph] d
  have 1: "find_segments direct_graph direct_graph (Module ''a'') (Module ''b'')
       = Some (remove_import direct_graph ''a'' ''b'', Inl ValueError)" by simp
  from find_segments_direct_chain
    [of squashed_graph "Module ''a''" "Module ''z''" example_graph] squashed_find_segments
  have 2: "2 \<le> length example_segment" by simp
  from 1 2 d direct_pop squashed_pop squashed_find_segments show ?thesis by simp
qed

section \<open>Properties of the collapsing stage\<close>

lemma filter_sorted_list_of_set:
  "filter P (sorted_list_of_set (set xs)) = sorted_list_of_set {x \<in> set xs. P x}"
proof -
  have "filter P (sorted_list_of_set (set xs)) = sort (remdups (filter P xs))"
    by (simp add: sorted_list_of_set_sort_remdups filter_sort remdups_filter)
  also have "\<dots> = sorted_list_of_set (set (filter P xs))"
    by (simp only: sorted_list_of_set_sort_remdups)
  finally show ?thesis by simp
qed

lemma finite_head_candidates [simp]: "finite (head_candidates g s m)"
  by (simp add: head_candidates_def find_modules_that_directly_import_def)

lemma finite_tail_candidates [simp]: "finite (tail_candidates g s m)"
  by (simp add: tail_candidates_def find_modules_directly_imported_by_def)

lemma head_imports_candidates:
  "head_imports g (imported (hd s)) m = map (head_link g s) (sorted_list_of_set (head_candidates g s m))"
  unfolding head_imports_def head_candidates_def find_modules_that_directly_import_def
    filter_sorted_list_of_set
  by (simp add: head_link_def fun_eq_iff)

lemma tail_imports_candidates:
  "tail_imports g (importer (last s)) m = map (tail_link g s) (sorted_list_of_set (tail_candidates g s m))"
  unfolding tail_imports_def tail_candidates_def find_modules_directly_imported_by_def
    filter_sorted_list_of_set
  by (simp add: tail_link_def fun_eq_iff)

lemma collapse_segment_spec:
  assumes "s \<noteq> []" "head_candidates g s im \<noteq> {}" "tail_candidates g s ip \<noteq> {}"
  shows "collapse_segment g s im ip = Inr (collapsed_spec g s im ip)"
  using assms
  by (simp add: collapse_segment_def collapsed_spec_def head_imports_candidates
      tail_imports_candidates sorted_list_of_set_nonempty Let_def)

lemma collapse_segment_error:
  assumes "s = [] \<or> head_candidates g s im = {} \<or> tail_candidates g s ip = {}"
  shows "collapse_segment g s im ip = Inl IndexError"
  using assms
  by (auto simp: collapse_segment_def head_imports_candidates tail_imports_candidates)

lemma segments_to_collapsed_chains_spec:
  assumes "\<forall>s\<in>set segments. s \<noteq> [] \<and> head_candidates g s im \<noteq> {} \<and> tail_candidates g s ip \<noteq> {}"
  shows "segments_to_collapsed_chains g segments im ip
         = Inr (map (\<lambda>s. collapsed_spec g s im ip) segments)"
  using assms by (induction segments) (simp_all add: collapse_segment_spec)

lemma segments_to_collapsed_chains_error:
  assumes "s \<in> set segments" "s = [] \<or> head_candidates g s im = {} \<or> tail_candidates g s ip = {}"
  shows "segments_to_collapsed_chains g segments im ip = Inl IndexError"
  using assms
proof (induction segments)
  case Nil
  then show ?case by simp
next
  case (Cons x xs)
  show ?case
  proof (cases "collapse_segment g x im ip")
    case (Inl e)
    then have "e = IndexError" by (auto simp: collapse_segment_def Let_def split: if_splits)
    with Inl show ?thesis by simp
  next
    case (Inr d)
    with Cons.prems collapse_segment_error [of x g im ip] have "s \<in> set xs" by auto
    from Cons.IH [OF this Cons.prems(2)] Inr show ?thesis by simp
  qed
qed

lemma example_collapse:
  "segments_to_collapsed_chains example_graph [example_segment] (Module ''a'') (Module ''z'')
   = Inr [\<lparr>chain = [\<lparr>importer = ''a.b'', imported = ''c.d'', Link.line_numbers = [Some 3]\<rparr>,
                     \<lparr>importer = ''c.d'', imported = ''e.f'', Link.line_numbers = [Some 7]\<rparr>,
                     \<lparr>importer = ''e.f'', imported = ''z'', Link.line_numbers = [Some 9]\<rparr>],
            extra_firsts = [\<lparr>importer = ''a.c'', imported = ''c.d'',
                             Link.line_numbers = [Some 2, Some 5]\<rparr>],
            extra_lasts = []\<rparr>]"
  by (simp add: example_graph_def example_segment_def collapse_segment_def head_imports_def
      tail_imports_def find_modules_that_directly_import_def find_modules_directly_imported_by_def
      sorted_list_of_set_sort_remdups is_descendant_of_def sorted_line_numbers_def
      get_import_details_def)

lemma example_collapsed_chain:
  "segments_to_collapsed_chains example_graph [example_segment] (Module ''a'') (Module ''z'')
   = Inr [example_collapsed_chain_data]"
  unfolding example_collapsed_chain_data_def by (rule example_collapse)

lemma segments_to_collapsed_chains_length:
  "segments_to_collapsed_chains g segs im ip = Inr dcs \<Longrightarrow> length dcs = length segs"
  by (induction segs arbitrary: dcs) (auto split: sum.splits)

lemma example_head_candidates: "''a.b'' \<in> head_candidates example_graph example_segment (Module ''a'')"
  by (simp add: head_candidates_def example_graph_def example_segment_def
      find_modules_that_directly_import_def is_descendant_of_def)

lemma example_tail_candidates: "''z'' \<in> tail_candidates example_graph example_segment (Module ''z'')"
  by (simp add: tail_candidates_def example_graph_def example_segment_def
      find_modules_directly_imported_by_def)

lemma example_no_head: "head_candidates example_graph example_segment (Module ''q'') = {}"
  by (auto simp: head_candidates_def example_graph_def example_segment_def
      find_modules_that_directly_import_def is_descendant_of_def)

text \<open>
  Claim C4. For segments that are not empty and whose head and tail expansions are not
  empty, \<open>segments_to_collapsed_chains\<close> returns, for each segment, the structure of the
  specification: the candidates are filtered and sorted, the least one gives the first
  (last) link of the chain and the others the extra firsts (lasts), and the chain is the
  primary head link, then \<open>segment[1:-1]\<close>, then the primary tail link.
\<close>

theorem segments_to_collapsed_chains_expansion:
  assumes "\<forall>s\<in>set segments. s \<noteq> [] \<and> head_candidates graph s importer_m \<noteq> {}
                              \<and> tail_candidates graph s imported_m \<noteq> {}"
  shows "segments_to_collapsed_chains graph segments importer_m imported_m
         = Inr (map (\<lambda>s. collapsed_spec graph s importer_m imported_m) segments)"
  using assms by (rule segments_to_collapsed_chains_spec)

theorem segments_to_collapsed_chains_expansion_witness:
  "segments_to_collapsed_chains example_graph [example_segment] (Module ''a'') (Module ''z'')
   = Inr [collapsed_spec example_graph example_segment (Module ''a'') (Module ''z'')]"
proof -
  have "\<forall>s\<in>set [example_segment]. s \<noteq> []
          \<and> head_candidates example_graph s (Module ''a'') \<noteq> {}
          \<and> tail_candidates example_graph s (Module ''z'') \<noteq> {}"
    using example_head_candidates example_tail_candidates by (auto simp: example_segment_def)
  from segments_to_collapsed_chains_expansion [OF this] show ?thesis by simp
qed

text \<open>
  Claim C6 as stated fails: for the graph with the single import \<open>a -> b\<close> and the
  single-link segment \<open>a -> b\<close>, the collapsing stage raises nothing and returns a chain
  made of the head link and the tail link.
\<close>

theorem single_link_segment_collapsed:
  "segments_to_collapsed_chains direct_graph [direct_segment] (Module ''a'') (Module ''b'')
   = Inr [\<lparr>chain = [\<lparr>importer = ''a'', imported = ''b'', Link.line_numbers = []\<rparr>,
                     \<lparr>importer = ''a'', imported = ''b'', Link.line_numbers = []\<rparr>],
            extra_firsts = [], extra_lasts = []\<rparr>]"
  by (simp add: direct_graph_def direct_segment_def collapse_segment_def head_imports_def
      tail_imports_def find_modules_that_directly_import_def find_modules_directly_imported_by_def
      sorted_list_of_set_sort_remdups is_descendant_of_def sorted_line_numbers_def
      get_import_details_def)

text \<open>
  Claim C6, as the code has it. The collapsing stage makes no check of the length of a
  segment (the check for a direct chain is the one of \<open>find_segments\<close>). For a single-link
  segment it raises when the head or the tail expansion is empty, and otherwise returns a
  chain of two links, the primary head link and the primary tail link.
\<close>

theorem single_link_segment_no_check:
  "segments_to_collapsed_chains graph [[l]] importer_m imported_m
   = (if head_candidates graph [l] importer_m = {} \<or> tail_candidates graph [l] imported_m = {}
      then Inl IndexError
      else Inr [\<lparr>chain = [head_link graph [l] (Min (head_candidates graph [l] importer_m)),
                          tail_link graph [l] (Min (tail_candidates graph [l] imported_m))],
                 extra_firsts = map (head_link graph [l])
                   (sorted_list_of_set (head_candidates graph [l] importer_m
                                        - {Min (head_candidates graph [l] importer_m)})),
                 extra_lasts = map (tail_link graph [l])
                   (sorted_list_of_set (tail_candidates graph [l] imported_m
                                        - {Min (tail_candidates graph [l] imported_m)}))\<rparr>])"
proof (cases "head_candidates graph [l] importer_m = {} \<or> tail_candidates graph [l] imported_m = {}")
  case True
  then show ?thesis
    using segments_to_collapsed_chains_error [of "[l]" "[[l]]" graph importer_m imported_m]
    by auto
next
  case False
  then show ?thesis
    using segments_to_collapsed_chains_spec [of "[[l]]" graph importer_m imported_m]
    by (simp add: collapsed_spec_def Let_def)
qed

theorem single_link_segment_no_check_witness:
  "segments_to_collapsed_chains direct_graph [direct_segment] (Module ''q'') (Module ''b'')
   = Inl IndexError"
proof -
  have "head_candidates direct_graph direct_segment (Module ''q'') = {}"
    by (auto simp: head_candidates_def direct_graph_def direct_segment_def
        find_modules_that_directly_import_def is_descendant_of_def)
  with single_link_segment_no_check
    [of direct_graph "hd direct_segment" "Module ''q''" "Module ''b''"]
  show ?thesis by (simp add: direct_segment_def)
qed

text \<open>
  Claim C7. When the head expansion or the tail expansion of one of the segments has no
  candidate, \<open>segments_to_collapsed_chains\<close> raises (\<open>IndexError\<close>, on
  \<open>head_imports[0]\<close> or \<open>tail_imports[0]\<close>) and returns no result.
\<close>

theorem empty_expansion_raises:
  assumes "segment \<in> set segments"
    and "head_candidates graph segment importer_m = {} \<or> tail_candidates graph segment imported_m = {}"
  shows "segments_to_collapsed_chains graph segments importer_m imported_m = Inl IndexError"
  using assms segments_to_collapsed_chains_error by blast

theorem empty_expansion_raises_witness:
  "example_segment \<in> set [example_segment]
   \<and> head_candidates example_graph example_segment (Module ''q'') = {}
   \<and> segments_to_collapsed_chains example_graph [example_segment] (Module ''q'') (Module ''z'')
     = Inl IndexError"
  using empty_expansion_raises [of example_segment "[example_segment]" example_graph "Module ''q''" "Module ''z''"]
    example_no_head by simp

section \<open>Rendering of a chain\<close>

lemma enumerate_prefix_notes:
  "0 < n \<Longrightarrow>
   map (\<lambda>(position, source).
          \<lparr>module = importer source,
           msg = (if position > 0 then ''& '' else '''') @ importer source,
           line_numbers = Link.line_numbers source\<rparr>) (enumerate n xs)
   = map (\<lambda>s. \<lparr>module = importer s, msg = ''& '' @ importer s,
                  line_numbers = Link.line_numbers s\<rparr>) xs"
  by (induction xs arbitrary: n) auto

lemma notes_from_direct_import_firsts:
  "notes_from_direct_import d (Some efs) None =
     (if efs = []
      then [\<lparr>module = importer d, msg = importer d @ '' -> '' @ imported d,
              line_numbers = Link.line_numbers d\<rparr>]
      else \<lparr>module = importer d, msg = importer d, line_numbers = Link.line_numbers d\<rparr>
           # map (\<lambda>s. \<lparr>module = importer s, msg = ''& '' @ importer s,
                          line_numbers = Link.line_numbers s\<rparr>) (butlast efs)
           @ [\<lparr>module = importer (last efs),
                msg = ''& '' @ importer (last efs) @ '' -> '' @ imported (last efs),
                line_numbers = Link.line_numbers (last efs)\<rparr>])"
  by (simp add: notes_from_direct_import_def enumerate_prefix_notes)

text \<open>
  Claim C9. \<open>notes_from_chain_data\<close> renders the first link of a chain as follows: when
  there are extra firsts, the primary importer alone, then the importer of each extra first
  but the last with the prefix \<open>& \<close>, then the last extra first as
  \<open>& importer -> imported\<close>; when there is none, \<open>importer -> imported\<close>.
\<close>

theorem notes_from_chain_data_first_link:
  assumes "chain chain_data = first # others"
  shows "notes_from_chain_data chain_data =
     Inr ((if extra_firsts chain_data = []
           then [\<lparr>module = importer first, msg = importer first @ '' -> '' @ imported first,
                   line_numbers = Link.line_numbers first\<rparr>]
           else \<lparr>module = importer first, msg = importer first,
                  line_numbers = Link.line_numbers first\<rparr>
                # map (\<lambda>s. \<lparr>module = importer s, msg = ''& '' @ importer s,
                               line_numbers = Link.line_numbers s\<rparr>)
                      (butlast (extra_firsts chain_data))
                @ [\<lparr>module = importer (last (extra_firsts chain_data)),
                     msg = ''& '' @ importer (last (extra_firsts chain_data)) @ '' -> ''
                           @ imported (last (extra_firsts chain_data)),
                     line_numbers = Link.line_numbers (last (extra_firsts chain_data))\<rparr>])
          @ concat (map (\<lambda>direct_import. notes_from_direct_import direct_import None None)
                        (butlast others))
          @ (if others = [] then []
             else notes_from_direct_import (last others) None (Some (extra_lasts chain_data))))"
  using assms by (simp add: notes_from_chain_data_def notes_from_direct_import_firsts)

theorem notes_from_chain_data_first_link_witness:
  "chain example_chain_data
     = \<lparr>importer = ''a.b'', imported = ''c.d'', Link.line_numbers = [Some 3]\<rparr>
       # [\<lparr>importer = ''c.d'', imported = ''e.f'', Link.line_numbers = [Some 7]\<rparr>,
          \<lparr>importer = ''e.f'', imported = ''z'', Link.line_numbers = [Some 9]\<rparr>]
   \<and> notes_from_chain_data example_chain_data =
       Inr [\<lparr>module = ''a.b'', msg = ''a.b'', line_numbers = [Some 3]\<rparr>,
            \<lparr>module = ''a.c'', msg = ''& a.c'', line_numbers = [Some 2, Some 5]\<rparr>,
            \<lparr>module = ''a.d'', msg = ''& a.d -> c.d'', line_numbers = [None]\<rparr>,
            \<lparr>module = ''c.d'', msg = ''c.d -> e.f'', line_numbers = [Some 7]\<rparr>,
            \<lparr>module = ''e.f'', msg = ''e.f -> z'', line_numbers = [Some 9]\<rparr>,
            \<lparr>module = ''e.f'', msg = ''       & z.y'', line_numbers = []\<rparr>]"
proof -
  have h: "chain example_chain_data
     = \<lparr>importer = ''a.b'', imported = ''c.d'', Link.line_numbers = [Some 3]\<rparr>
       # [\<lparr>importer = ''c.d'', imported = ''e.f'', Link.line_numbers = [Some 7]\<rparr>,
          \<lparr>importer = ''e.f'', imported = ''z'', Link.line_numbers = [Some 9]\<rparr>]"
    by (simp add: example_chain_data_def)
  from notes_from_chain_data_first_link [OF h] h show ?thesis
    by (simp add: example_chain_data_def notes_from_direct_import_def eval_nat_numeral)
qed

section \<open>Rendering of line numbers\<close>

lemma format_line_numbers_get_line_numbers:
  "get_import_details graph a b = [] \<Longrightarrow>
     map ImportNote_str
       (notes_from_direct_import
          \<lparr>importer = a, imported = b, Link.line_numbers = get_line_numbers a b graph\<rparr>
          None None)
     = [a @ '' -> '' @ b @ '' (l.?)'']"
  by (simp add: format_line_numbers_def ImportNote_str_def notes_from_direct_import_def
      get_line_numbers_def)

lemma manual_find_segments:
  "find_segments manual_graph manual_graph (Module ''a'') (Module ''b'')
   = Some ([], Inr [manual_segment])"
  unfolding find_segments_def
  apply (subst find_segments_loop.simps)
  apply (subst find_segments_loop.simps)
  apply code_simp
  done

lemma manual_collapse:
  "segments_to_collapsed_chains manual_graph [manual_segment] (Module ''a'') (Module ''b'')
   = Inr [manual_chain_data]"
  by (simp add: manual_graph_def manual_segment_def manual_chain_data_def collapse_segment_def
      head_imports_def tail_imports_def find_modules_that_directly_import_def
      find_modules_directly_imported_by_def sorted_list_of_set_sort_remdups is_descendant_of_def
      sorted_line_numbers_def get_import_details_def)

lemma manual_route_chain:
  "build_detailed_chain_from_route manual_route manual_graph = Inr manual_route_chain_data"
  unfolding manual_route_chain_data_def by code_simp

lemma manual_notes:
  "map_sum id (map ImportNote_str) (notes_from_chain_data manual_chain_data)
   = Inr [''a -> m ()'', ''m -> b ()'']"
  "map_sum id (map ImportNote_str) (notes_from_chain_data manual_route_chain_data)
   = Inr [''a -> m (l.?)'', ''m -> b (l.?)'']"
  by (simp_all add: manual_chain_data_def manual_route_chain_data_def manual_segment_def
      notes_from_chain_data_def notes_from_direct_import_def ImportNote_str_def
      format_line_numbers_def)

text \<open>
  Claim C8. \<open>format_line_numbers\<close> renders an unknown line number (\<open>None\<close>) as the token
  \<open>l.?\<close> and a known number \<open>n\<close> as \<open>l.\<close> followed by \<open>n\<close>, and joins several entries
  with a comma and a space. The last part of the claim does not hold on every path: for a
  graph whose imports \<open>a -> m\<close> and \<open>m -> b\<close> have no detail record, \<open>find_segments\<close> and
  \<open>segments_to_collapsed_chains\<close> give each link the empty tuple of line numbers, not
  \<open>(None,)\<close>, and the notes read \<open>a -> m ()\<close> and \<open>m -> b ()\<close>; the route-based assembly,
  which takes its line numbers from \<open>get_line_numbers\<close>, gives \<open>a -> m (l.?)\<close> and
  \<open>m -> b (l.?)\<close> for the same graph.
\<close>

theorem unknown_line_number_rendering:
  "format_line_numbers [] = ''''
   \<and> format_line_numbers [None] = ''l.?''
   \<and> format_line_numbers [Some n] = ''l.'' @ str_int n
   \<and> format_line_numbers (x # y # ys)
       = format_line_numbers [x] @ '', '' @ format_line_numbers (y # ys)
   \<and> format_line_numbers [Some 3, None, Some 12, Some (- 7)] = ''l.3, l.?, l.12, l.-7''
   \<and> get_import_details manual_graph ''a'' ''m'' = []
   \<and> get_import_details manual_graph ''m'' ''b'' = []
   \<and> find_segments manual_graph manual_graph (Module ''a'') (Module ''b'')
       = Some ([], Inr [manual_segment])
   \<and> segments_to_collapsed_chains manual_graph [manual_segment] (Module ''a'') (Module ''b'')
       = Inr [manual_chain_data]
   \<and> map_sum id (map ImportNote_str) (notes_from_chain_data manual_chain_data)
       = Inr [''a -> m ()'', ''m -> b ()'']
   \<and> build_detailed_chain_from_route manual_route manual_graph = Inr manual_route_chain_data
   \<and> map_sum id (map ImportNote_str) (notes_from_chain_data manual_route_chain_data)
       = Inr [''a -> m (l.?)'', ''m -> b (l.?)'']"
proof -
  have "format_line_numbers [] = ''''"
    "format_line_numbers [None] = ''l.?''"
    "format_line_numbers [Some n] = ''l.'' @ str_int n"
    "format_line_numbers (x # y # ys)
       = format_line_numbers [x] @ '', '' @ format_line_numbers (y # ys)"
    "format_line_numbers [Some 3, None, Some 12, Some (- 7)] = ''l.3, l.?, l.12, l.-7''"
    by (simp_all add: format_line_numbers_def str_int_def str_nat.simps)
  moreover have "get_import_details manual_graph ''a'' ''m'' = []"
    "get_import_details manual_graph ''m'' ''b'' = []"
    by (simp_all add: get_import_details_def manual_graph_def)
  ultimately show ?thesis
    using manual_find_segments manual_collapse manual_route_chain manual_notes
    by (simp del: segments_to_collapsed_chains.simps)
qed

theorem unknown_line_number_rendering_witness:
  "format_line_numbers [Some 42] = ''l.42''
   \<and> format_line_numbers [None, Some 42] = ''l.?, l.42''
   \<and> find_segments manual_graph manual_graph (Module ''a'') (Module ''b'')
       = Some ([], Inr [manual_segment])
   \<and> segments_to_collapsed_chains manual_graph [manual_segment] (Module ''a'') (Module ''b'')
       = Inr [manual_chain_data]
   \<and> map_sum id (map ImportNote_str) (notes_from_chain_data manual_chain_data)
       = Inr [''a -> m ()'', ''m -> b ()'']
   \<and> map_sum id (map ImportNote_str) (notes_from_chain_data manual_route_chain_data)
       = Inr [''a -> m (l.?)'', ''m -> b (l.?)'']"
  using unknown_line_number_rendering [of 42 None "Some 42" "[]"]
  by (simp add: str_int_def str_nat.simps del: segments_to_collapsed_chains.simps)

section \<open>Line numbers of the two assemblies\<close>

lemma sorted_line_numbers_props:
  "sorted_line_numbers ds = map Some (sorted_list_of_set (line_number ` set ds))
   \<and> sorted_wrt (<) (sorted_list_of_set (line_number ` set ds))
   \<and> sorted_line_numbers [] = []"
  by (simp add: sorted_line_numbers_def strict_sorted_iff)

lemma head_imports_links:
  "l \<in> set (head_imports g m im) \<Longrightarrow>
     Link.line_numbers l = sorted_line_numbers (get_import_details g (importer l) (imported l))"
  by (auto simp: head_imports_def)

lemma tail_imports_links:
  "l \<in> set (tail_imports g m ip) \<Longrightarrow>
     Link.line_numbers l = sorted_line_numbers (get_import_details g (importer l) (imported l))"
  by (auto simp: tail_imports_def)

lemma collapse_segment_Inr:
  assumes "collapse_segment g s im ip = Inr dc"
  shows "hd (chain dc) # extra_firsts dc = head_imports g (imported (hd s)) im
         \<and> last (chain dc) # extra_lasts dc = tail_imports g (importer (last s)) ip"
  using assms by (auto simp: collapse_segment_def Let_def split: if_splits)

lemma collapse_segment_links:
  assumes "collapse_segment g s im ip = Inr dc"
    and "l \<in> set (hd (chain dc) # extra_firsts dc @ last (chain dc) # extra_lasts dc)"
  shows "Link.line_numbers l = sorted_line_numbers (get_import_details g (importer l) (imported l))"
proof -
  from collapse_segment_Inr [OF assms(1)] assms(2)
  have "l \<in> set (head_imports g (imported (hd s)) im) \<or> l \<in> set (tail_imports g (importer (last s)) ip)"
    by (metis Un_iff set_append append_Cons)
  then show ?thesis using head_imports_links tail_imports_links by blast
qed

lemma segments_to_collapsed_chains_links:
  assumes "segments_to_collapsed_chains g segs im ip = Inr dcs" "dc \<in> set dcs"
    and "l \<in> set (hd (chain dc) # extra_firsts dc @ last (chain dc) # extra_lasts dc)"
  shows "Link.line_numbers l = sorted_line_numbers (get_import_details g (importer l) (imported l))"
  using assms
proof (induction segs arbitrary: dcs)
  case Nil
  then show ?case by simp
next
  case (Cons s segs)
  from Cons.prems(1) obtain d ds where d: "collapse_segment g s im ip = Inr d"
    and ds: "segments_to_collapsed_chains g segs im ip = Inr ds" and dcs: "dcs = d # ds"
    by (auto split: sum.splits)
  show ?case
  proof (cases "dc = d")
    case True
    with collapse_segment_links [OF d] Cons.prems(3) show ?thesis by blast
  next
    case False
    with Cons.prems(2) dcs have "dc \<in> set ds" by simp
    from Cons.IH [OF ds this Cons.prems(3)] show ?thesis .
  qed
qed

lemma example_get_line_numbers:
  "get_import_details example_graph ''a.c'' ''c.d''
     = [\<lparr>line_number = 5, line_contents = ''import c.d''\<rparr>,
        \<lparr>line_number = 2, line_contents = ''from c import d''\<rparr>]"
  "get_import_details example_graph ''a'' ''c.d'' = []"
  by (simp_all add: get_import_details_def example_graph_def)

text \<open>
  Claim C10. \<open>get_line_numbers\<close> never returns the empty tuple: it returns \<open>(None,)\<close>
  when the graph has no detail record for the pair, and otherwise the line numbers of the
  records in the order of the graph, neither sorted nor de-duplicated. The line numbers of
  the links built by \<open>find_segments\<close> and of the head and tail links built by
  \<open>segments_to_collapsed_chains\<close> are the sorted, de-duplicated ones, and empty when there
  is no detail record.
\<close>

theorem get_line_numbers_never_empty:
  "get_line_numbers a b graph \<noteq> []
   \<and> (get_import_details graph a b = [] \<longrightarrow> get_line_numbers a b graph = [None])
   \<and> (get_import_details graph a b \<noteq> [] \<longrightarrow>
        get_line_numbers a b graph = map (\<lambda>i. Some (line_number i)) (get_import_details graph a b))
   \<and> (\<forall>g' segments. find_segments g reference_graph importer_m imported_m = Some (g', Inr segments)
        \<longrightarrow> (\<forall>segment\<in>set segments. \<forall>l\<in>set segment.
               Link.line_numbers l
               = sorted_line_numbers (get_import_details reference_graph (importer l) (imported l))))
   \<and> (\<forall>collapsed. segments_to_collapsed_chains reference_graph segs importer_m imported_m = Inr collapsed
        \<longrightarrow> length collapsed = length segs
          \<and> (\<forall>dc\<in>set collapsed.
               \<forall>l\<in>set (hd (chain dc) # extra_firsts dc @ last (chain dc) # extra_lasts dc).
                 Link.line_numbers l
                 = sorted_line_numbers (get_import_details reference_graph (importer l) (imported l))))
   \<and> sorted_line_numbers ds = map Some (sorted_list_of_set (line_number ` set ds))
   \<and> sorted_wrt (<) (sorted_list_of_set (line_number ` set ds))
   \<and> sorted_line_numbers [] = []"
proof -
  have 1: "get_line_numbers a b graph \<noteq> []"
    "get_import_details graph a b = [] \<longrightarrow> get_line_numbers a b graph = [None]"
    "get_import_details graph a b \<noteq> [] \<longrightarrow>
        get_line_numbers a b graph = map (\<lambda>i. Some (line_number i)) (get_import_details graph a b)"
    by (simp_all add: get_line_numbers_def Let_def)
  have 2: "\<forall>segment\<in>set segments. \<forall>l\<in>set segment.
               Link.line_numbers l
               = sorted_line_numbers (get_import_details reference_graph (importer l) (imported l))"
    if r: "find_segments g reference_graph importer_m imported_m = Some (g', Inr segments)"
    for g' segments
  proof -
    from find_segments_loop_Inr [OF r [unfolded find_segments_def]]
    obtain cs where "segments = map (build_segment reference_graph) cs" by auto
    then show ?thesis using build_segment_links by auto
  qed
  have 3: "length collapsed = length segs
           \<and> (\<forall>dc\<in>set collapsed.
               \<forall>l\<in>set (hd (chain dc) # extra_firsts dc @ last (chain dc) # extra_lasts dc).
                 Link.line_numbers l
                 = sorted_line_numbers (get_import_details reference_graph (importer l) (imported l)))"
    if "segments_to_collapsed_chains reference_graph segs importer_m imported_m = Inr collapsed"
    for collapsed
    using segments_to_collapsed_chains_links [OF that] segments_to_collapsed_chains_length [OF that]
    by blast
  from 1 2 3 sorted_line_numbers_props [of ds] show ?thesis by blast
qed

theorem get_line_numbers_never_empty_witness:
  "get_import_details example_graph ''a'' ''c.d'' = []
   \<and> get_line_numbers ''a'' ''c.d'' example_graph = [None]
   \<and> sorted_line_numbers (get_import_details example_graph ''a'' ''c.d'') = []
   \<and> get_import_details example_graph ''a.c'' ''c.d'' \<noteq> []
   \<and> get_line_numbers ''a.c'' ''c.d'' example_graph = [Some 5, Some 2]
   \<and> sorted_line_numbers (get_import_details example_graph ''a.c'' ''c.d'') = [Some 2, Some 5]
   \<and> find_segments squashed_graph example_graph (Module ''a'') (Module ''z'')
       = Some ([((''x.y'', ''c.d''), [\<lparr>line_number = 4, line_contents = ''import c.d''\<rparr>])],
               Inr [example_segment])
   \<and> Link.line_numbers (hd example_segment)
       = sorted_line_numbers (get_import_details example_graph ''a'' ''c.d'')
   \<and> Link.line_numbers (last example_segment)
       = sorted_line_numbers (get_import_details example_graph ''e.f'' ''z'')
   \<and> Link.line_numbers (last example_segment) = [Some 9]
   \<and> segments_to_collapsed_chains example_graph [example_segment] (Module ''a'') (Module ''z'')
       = Inr [example_collapsed_chain_data]
   \<and> length [example_collapsed_chain_data] = length [example_segment]
   \<and> Link.line_numbers (hd (chain example_collapsed_chain_data))
       = sorted_line_numbers (get_import_details example_graph ''a.b'' ''c.d'')
   \<and> Link.line_numbers (hd (chain example_collapsed_chain_data)) = [Some 3]
   \<and> Link.line_numbers (hd (extra_firsts example_collapsed_chain_data))
       = sorted_line_numbers (get_import_details example_graph ''a.c'' ''c.d'')
   \<and> Link.line_numbers (hd (extra_firsts example_collapsed_chain_data)) = [Some 2, Some 5]
   \<and> Link.line_numbers (last (chain example_collapsed_chain_data))
       = sorted_line_numbers (get_import_details example_graph ''e.f'' ''z'')
   \<and> Link.line_numbers (last (chain example_collapsed_chain_data)) = [Some 9]"
proof -
  note t = get_line_numbers_never_empty
  from t [of "''a''" "''c.d''" example_graph] example_get_line_numbers(2)
  have 1: "get_line_numbers ''a'' ''c.d'' example_graph = [None]" by simp
  from t [of "''a.c''" "''c.d''" example_graph] example_get_line_numbers(1)
  have 2: "get_line_numbers ''a.c'' ''c.d'' example_graph = [Some 5, Some 2]" by simp
  have 3: "sorted_line_numbers (get_import_details example_graph ''a.c'' ''c.d'') = [Some 2, Some 5]"
    by (simp add: example_get_line_numbers sorted_line_numbers_def sorted_list_of_set_sort_remdups)
  from t [where g = squashed_graph and reference_graph = example_graph
      and importer_m = "Module ''a''" and imported_m = "Module ''z''"
      and segs = "[example_segment]"]
    squashed_find_segments example_collapsed_chain
  have seg: "\<forall>l\<in>set example_segment.
               Link.line_numbers l
               = sorted_line_numbers (get_import_details example_graph (importer l) (imported l))"
    and len: "length [example_collapsed_chain_data] = length [example_segment]"
    and col: "\<forall>l\<in>set (hd (chain example_collapsed_chain_data)
                       # extra_firsts example_collapsed_chain_data
                       @ last (chain example_collapsed_chain_data)
                       # extra_lasts example_collapsed_chain_data).
               Link.line_numbers l
               = sorted_line_numbers (get_import_details example_graph (importer l) (imported l))"
    by simp_all
  from seg have 4: "Link.line_numbers (hd example_segment)
       = sorted_line_numbers (get_import_details example_graph ''a'' ''c.d'')"
    and 5: "Link.line_numbers (last example_segment)
       = sorted_line_numbers (get_import_details example_graph ''e.f'' ''z'')"
    by (simp_all add: example_segment_def)
  from col have 6: "Link.line_numbers (hd (chain example_collapsed_chain_data))
       = sorted_line_numbers (get_import_details example_graph ''a.b'' ''c.d'')"
    and 7: "Link.line_numbers (hd (extra_firsts example_collapsed_chain_data))
       = sorted_line_numbers (get_import_details example_graph ''a.c'' ''c.d'')"
    and 8: "Link.line_numbers (last (chain example_collapsed_chain_data))
       = sorted_line_numbers (get_import_details example_graph ''e.f'' ''z'')"
    by (simp_all add: example_collapsed_chain_data_def)
  have 9: "Link.line_numbers (last example_segment) = [Some 9]"
    "Link.line_numbers (hd (chain example_collapsed_chain_data)) = [Some 3]"
    "Link.line_numbers (hd (extra_firsts example_collapsed_chain_data)) = [Some 2, Some 5]"
    "Link.line_numbers (last (chain example_collapsed_chain_data)) = [Some 9]"
    by (simp_all add: example_segment_def example_collapsed_chain_data_def)
  have 10: "sorted_line_numbers (get_import_details example_graph ''a'' ''c.d'') = []"
    by (simp add: example_get_line_numbers sorted_line_numbers_def)
  from 1 2 3 4 5 6 7 8 9 10 len example_get_line_numbers squashed_find_segments
    example_collapsed_chain
  show ?thesis by simp
qed

section \<open>Route-based assembly and the pipeline\<close>

lemma pairwise_seq_ends:
  "mid \<noteq> [] \<Longrightarrow> pairwise_seq (x # mid @ [y]) = (x, hd mid) # pairwise_seq mid @ [(last mid, y)]"
proof (induction mid arbitrary: x rule: induct_list012)
  case 1 then show ?case by simp
next
  case (2 m) show ?case by simp
next
  case (3 m m' ms)
  from 3(2) [of m] show ?case by simp
qed

lemma build_segment_pairwise:
  "build_segment ref c = map (\<lambda>(x, y). sorted_link ref x y) (pairwise_seq c)"
  unfolding build_segment_def index_pairs_pairwise_seq sorted_link_def ..

lemma build_segment_ends:
  assumes "mid \<noteq> []"
  shows "build_segment ref (a # mid @ [b])
         = sorted_link ref a (hd mid) # map (\<lambda>(x, y). sorted_link ref x y) (pairwise_seq mid)
           @ [sorted_link ref (last mid) b]"
  by (simp add: build_segment_pairwise pairwise_seq_ends [OF assms])

lemma chain_decompose:
  assumes "3 \<le> length c"
  shows "butlast (tl c) \<noteq> [] \<and> c = hd c # butlast (tl c) @ [last c]"
proof -
  from assms obtain x y z r where c: "c = x # y # z # r"
    by (cases c; cases "tl c"; cases "tl (tl c)") auto
  show ?thesis unfolding c by simp
qed

lemma collapsed_spec_assembled:
  assumes "mid \<noteq> []"
  shows "collapsed_spec ref (build_segment ref (a # mid @ [b])) im ip
         = assembled_chain (sorted_link ref)
             (head_candidates ref (build_segment ref (a # mid @ [b])) im) mid
             (tail_candidates ref (build_segment ref (a # mid @ [b])) ip)"
  unfolding build_segment_ends [OF assms]
  by (simp add: collapsed_spec_def assembled_chain_def Let_def head_link_def tail_link_def
      sorted_link_def fun_eq_iff butlast_append split_def)

lemma route_assembled:
  assumes "mid \<noteq> []" "finite H" "H \<noteq> {}" "finite T" "T \<noteq> {}"
  shows "build_detailed_chain_from_route \<lparr>heads = H, middle = mid, tails = T\<rparr> ref
         = Inr (assembled_chain (route_link ref) H mid T)"
  using assms
  by (simp add: build_detailed_chain_from_route_def assembled_chain_def Let_def
      sorted_list_of_set_nonempty pairwise_seq_ends route_link_def fun_eq_iff)

lemma link_names_links [simp]:
  "link_names (sorted_link g x y) = (x, y)" "link_names (route_link g x y) = (x, y)"
  "importer (route_link g x y) = x" "imported (route_link g x y) = y"
  by (simp_all add: link_names_def sorted_link_def route_link_def)

lemma route_link_eq_sorted_link:
  "route_link g x y = sorted_link g x y \<longleftrightarrow> details_sorted g x y"
proof (cases "get_import_details g x y = []")
  case True
  then show ?thesis
    by (simp add: route_link_def sorted_link_def details_sorted_def get_line_numbers_def
        sorted_line_numbers_def)
next
  case False
  define ns where "ns = map line_number (get_import_details g x y)"
  have g: "get_line_numbers x y g = map Some ns"
    using False by (simp add: get_line_numbers_def ns_def comp_def)
  have s: "sorted_line_numbers (get_import_details g x y) = map Some (sorted_list_of_set (set ns))"
    by (simp add: sorted_line_numbers_def ns_def)
  have "route_link g x y = sorted_link g x y
        \<longleftrightarrow> map Some ns = map Some (sorted_list_of_set (set ns))"
    by (simp add: route_link_def sorted_link_def g s)
  also have "\<dots> \<longleftrightarrow> ns = sorted_list_of_set (set ns)"
    by (rule inj_map_eq_map) simp
  also have "\<dots> \<longleftrightarrow> sorted_wrt (<) ns"
  proof
    assume "ns = sorted_list_of_set (set ns)"
    then have "sorted_wrt (<) ns = sorted_wrt (<) (sorted_list_of_set (set ns))" by simp
    then show "sorted_wrt (<) ns" by (simp add: strict_sorted_iff)
  next
    assume "sorted_wrt (<) ns"
    then have "sorted ns" "distinct ns" by (simp_all add: strict_sorted_iff)
    then show "ns = sorted_list_of_set (set ns)"
      by (simp add: sorted_list_of_set.idem_if_sorted_distinct)
  qed
  finally show ?thesis using False by (simp add: details_sorted_def ns_def)
qed

lemma assembled_names:
  "map link_names (chain (assembled_chain (route_link g) H mid T))
     = map link_names (chain (assembled_chain (sorted_link g) H mid T))"
  "map link_names (extra_firsts (assembled_chain (route_link g) H mid T))
     = map link_names (extra_firsts (assembled_chain (sorted_link g) H mid T))"
  "map link_names (extra_lasts (assembled_chain (route_link g) H mid T))
     = map link_names (extra_lasts (assembled_chain (sorted_link g) H mid T))"
  by (simp_all add: assembled_chain_def split_def)

lemma assembled_eq_iff:
  "assembled_chain (route_link g) H mid T = assembled_chain (sorted_link g) H mid T
   \<longleftrightarrow> (\<forall>l\<in>set (chain (assembled_chain (route_link g) H mid T)
               @ extra_firsts (assembled_chain (route_link g) H mid T)
               @ extra_lasts (assembled_chain (route_link g) H mid T)).
          details_sorted g (importer l) (imported l))"
  by (simp add: assembled_chain_def route_link_eq_sorted_link split_def ball_Un) blast

lemma route_link_correspond:
  "line_numbers_correspond g (route_link g x y) (sorted_link g x y)"
  by (simp add: line_numbers_correspond_def route_link_def sorted_link_def get_line_numbers_def
      sorted_line_numbers_def Let_def)

lemma assembled_correspond:
  "list_all2 (line_numbers_correspond g)
     (chain (assembled_chain (route_link g) H mid T))
     (chain (assembled_chain (sorted_link g) H mid T))"
  "list_all2 (line_numbers_correspond g)
     (extra_firsts (assembled_chain (route_link g) H mid T))
     (extra_firsts (assembled_chain (sorted_link g) H mid T))"
  "list_all2 (line_numbers_correspond g)
     (extra_lasts (assembled_chain (route_link g) H mid T))
     (extra_lasts (assembled_chain (sorted_link g) H mid T))"
  by (simp_all add: assembled_chain_def split_def list_all2_map1 list_all2_map2 list_all2_same
      list_all2_append route_link_correspond)

lemma assembled_eq_iff_details:
  assumes "\<forall>l\<in>set (chain (assembled_chain (route_link g) H mid T)
               @ extra_firsts (assembled_chain (route_link g) H mid T)
               @ extra_lasts (assembled_chain (route_link g) H mid T)).
            get_import_details g (importer l) (imported l) \<noteq> []"
  shows "assembled_chain (route_link g) H mid T = assembled_chain (sorted_link g) H mid T
   \<longleftrightarrow> (\<forall>l\<in>set (chain (assembled_chain (route_link g) H mid T)
               @ extra_firsts (assembled_chain (route_link g) H mid T)
               @ extra_lasts (assembled_chain (route_link g) H mid T)).
          sorted_wrt (<) (map line_number (get_import_details g (importer l) (imported l))))"
  unfolding assembled_eq_iff using assms by (auto simp: details_sorted_def)

lemma route_vs_collapsed:
  assumes "3 \<le> length c"
    and "head_candidates ref (build_segment ref c) im \<noteq> {}"
    and "tail_candidates ref (build_segment ref c) ip \<noteq> {}"
  shows "\<exists>r. build_detailed_chain_from_route (corresponding_route ref c im ip) ref = Inr r
     \<and> map link_names (chain r)
         = map link_names (chain (collapsed_spec ref (build_segment ref c) im ip))
     \<and> map link_names (extra_firsts r)
         = map link_names (extra_firsts (collapsed_spec ref (build_segment ref c) im ip))
     \<and> map link_names (extra_lasts r)
         = map link_names (extra_lasts (collapsed_spec ref (build_segment ref c) im ip))
     \<and> list_all2 (line_numbers_correspond ref) (chain r)
          (chain (collapsed_spec ref (build_segment ref c) im ip))
     \<and> list_all2 (line_numbers_correspond ref) (extra_firsts r)
          (extra_firsts (collapsed_spec ref (build_segment ref c) im ip))
     \<and> list_all2 (line_numbers_correspond ref) (extra_lasts r)
          (extra_lasts (collapsed_spec ref (build_segment ref c) im ip))
     \<and> ((\<forall>l\<in>set (chain r @ extra_firsts r @ extra_lasts r).
             get_import_details ref (importer l) (imported l) \<noteq> [])
          \<longrightarrow> (r = collapsed_spec ref (build_segment ref c) im ip
                \<longleftrightarrow> (\<forall>l\<in>set (chain r @ extra_firsts r @ extra_lasts r).
                       sorted_wrt (<)
                         (map line_number (get_import_details ref (importer l) (imported l))))))"
proof -
  define mid where "mid = butlast (tl c)"
  define H where "H = head_candidates ref (build_segment ref c) im"
  define T where "T = tail_candidates ref (build_segment ref c) ip"
  from chain_decompose [OF assms(1)] have mid: "mid \<noteq> []" and c: "c = hd c # mid @ [last c]"
    by (simp_all add: mid_def)
  have fin: "finite H" "finite T" by (simp_all add: H_def T_def)
  have r: "build_detailed_chain_from_route (corresponding_route ref c im ip) ref
           = Inr (assembled_chain (route_link ref) H mid T)"
    unfolding corresponding_route_def
    using route_assembled [OF mid fin(1) _ fin(2), of ref] assms(2,3)
    by (simp add: H_def T_def mid_def)
  have p: "collapsed_spec ref (build_segment ref c) im ip = assembled_chain (sorted_link ref) H mid T"
    using collapsed_spec_assembled [OF mid, of ref "hd c" "last c" im ip] c
    by (simp add: H_def T_def)
  show ?thesis
    unfolding r p
    using assembled_names [of ref H mid T] assembled_correspond [of ref H mid T]
      assembled_eq_iff_details [of ref H mid T]
    by simp
qed

lemma example_corresponding_route:
  "corresponding_route example_graph [''a'', ''c.d'', ''e.f'', ''z''] (Module ''a'') (Module ''z'')
   = example_route"
  unfolding corresponding_route_def example_segment_build example_route_def
  by (auto simp: head_candidates_def tail_candidates_def example_graph_def example_segment_def
      find_modules_that_directly_import_def find_modules_directly_imported_by_def
      is_descendant_of_def)

lemma example_route_chain:
  "build_detailed_chain_from_route example_route example_graph = Inr example_route_chain_data"
  unfolding example_route_chain_data_def by code_simp

lemma example_details:
  "get_import_details example_graph ''a.b'' ''c.d''
     = [\<lparr>line_number = 3, line_contents = ''import c.d''\<rparr>]"
  "get_import_details example_graph ''c.d'' ''e.f''
     = [\<lparr>line_number = 7, line_contents = ''import e.f''\<rparr>]"
  "get_import_details example_graph ''e.f'' ''z''
     = [\<lparr>line_number = 9, line_contents = ''import z''\<rparr>]"
  by (simp_all add: get_import_details_def example_graph_def)

text \<open>
  Claim C5, as the code has it. Take the segments \<open>find_segments\<close> extracts, each with a
  head and a tail candidate, and for each popped chain the route that stands for the same
  paths. The pipeline returns one annotated chain for each, and the route-based assembly
  returns an annotated chain with the same importer and imported module in every link of
  \<open>chain\<close>, \<open>extra_firsts\<close> and \<open>extra_lasts\<close>. For a link whose import has detail records,
  the route-based assembly reports the line numbers in the order of the graph and the
  pipeline reports them sorted and de-duplicated; when every import reported has detail
  records, the two annotated chains are equal exactly when the line numbers of each of these
  imports are strictly increasing in the order of the graph.
\<close>

theorem route_and_pipeline_chains:
  assumes "find_segments graph reference_graph importer_m imported_m = Some (g', Inr segments)"
    and "\<forall>s\<in>set segments. head_candidates reference_graph s importer_m \<noteq> {}
                          \<and> tail_candidates reference_graph s imported_m \<noteq> {}"
  shows "\<exists>cs ps. pop_shortest_chains graph (name importer_m) (name imported_m) = Some (cs, g')
     \<and> segments = map (build_segment reference_graph) cs
     \<and> segments_to_collapsed_chains reference_graph segments importer_m imported_m = Inr ps
     \<and> length ps = length cs
     \<and> (\<forall>i<length cs. \<exists>r.
           build_detailed_chain_from_route
             (corresponding_route reference_graph (cs ! i) importer_m imported_m) reference_graph
           = Inr r
           \<and> map link_names (chain r) = map link_names (chain (ps ! i))
           \<and> map link_names (extra_firsts r) = map link_names (extra_firsts (ps ! i))
           \<and> map link_names (extra_lasts r) = map link_names (extra_lasts (ps ! i))
           \<and> list_all2 (line_numbers_correspond reference_graph) (chain r) (chain (ps ! i))
           \<and> list_all2 (line_numbers_correspond reference_graph)
                (extra_firsts r) (extra_firsts (ps ! i))
           \<and> list_all2 (line_numbers_correspond reference_graph)
                (extra_lasts r) (extra_lasts (ps ! i))
           \<and> ((\<forall>l\<in>set (chain r @ extra_firsts r @ extra_lasts r).
                   get_import_details reference_graph (importer l) (imported l) \<noteq> [])
                \<longrightarrow> (r = ps ! i
                      \<longleftrightarrow> (\<forall>l\<in>set (chain r @ extra_firsts r @ extra_lasts r).
                             sorted_wrt (<)
                               (map line_number
                                  (get_import_details reference_graph
                                     (importer l) (imported l)))))))"
proof -
  from find_segments_loop_Inr [OF assms(1) [unfolded find_segments_def]]
  obtain cs where cs: "pop_shortest_chains graph (name importer_m) (name imported_m) = Some (cs, g')"
    and segs: "segments = map (build_segment reference_graph) cs"
    and len: "\<forall>c\<in>set cs. 3 \<le> length c" by auto
  define ps where
    "ps = map (\<lambda>s. collapsed_spec reference_graph s importer_m imported_m) segments"
  have "s \<noteq> []" if "s \<in> set segments" for s
  proof -
    from that segs obtain c where "c \<in> set cs" "s = build_segment reference_graph c" by auto
    with len have "length s = length c - 1" "3 \<le> length c" by simp_all
    then show ?thesis by auto
  qed
  with assms(2)
  have "\<forall>s\<in>set segments. s \<noteq> [] \<and> head_candidates reference_graph s importer_m \<noteq> {}
                          \<and> tail_candidates reference_graph s imported_m \<noteq> {}"
    by blast
  from segments_to_collapsed_chains_spec [OF this]
  have coll: "segments_to_collapsed_chains reference_graph segments importer_m imported_m = Inr ps"
    by (simp add: ps_def)
  have "\<exists>r. build_detailed_chain_from_route
             (corresponding_route reference_graph (cs ! i) importer_m imported_m) reference_graph
           = Inr r
           \<and> map link_names (chain r) = map link_names (chain (ps ! i))
           \<and> map link_names (extra_firsts r) = map link_names (extra_firsts (ps ! i))
           \<and> map link_names (extra_lasts r) = map link_names (extra_lasts (ps ! i))
           \<and> list_all2 (line_numbers_correspond reference_graph) (chain r) (chain (ps ! i))
           \<and> list_all2 (line_numbers_correspond reference_graph)
                (extra_firsts r) (extra_firsts (ps ! i))
           \<and> list_all2 (line_numbers_correspond reference_graph)
                (extra_lasts r) (extra_lasts (ps ! i))
           \<and> ((\<forall>l\<in>set (chain r @ extra_firsts r @ extra_lasts r).
                   get_import_details reference_graph (importer l) (imported l) \<noteq> [])
                \<longrightarrow> (r = ps ! i
                      \<longleftrightarrow> (\<forall>l\<in>set (chain r @ extra_firsts r @ extra_lasts r).
                             sorted_wrt (<)
                               (map line_number
                                  (get_import_details reference_graph
                                     (importer l) (imported l))))))"
    if i: "i < length cs" for i
  proof -
    from i have m: "cs ! i \<in> set cs" by simp
    with len have l: "3 \<le> length (cs ! i)" by blast
    from m segs have "build_segment reference_graph (cs ! i) \<in> set segments" by simp
    with assms(2) have
      "head_candidates reference_graph (build_segment reference_graph (cs ! i)) importer_m \<noteq> {}"
      "tail_candidates reference_graph (build_segment reference_graph (cs ! i)) imported_m \<noteq> {}"
      by blast+
    from route_vs_collapsed [OF l this] i show ?thesis by (simp add: ps_def segs)
  qed
  with cs segs coll show ?thesis by (intro exI [of _ cs] exI [of _ ps]) (simp add: ps_def)
qed

theorem route_and_pipeline_chains_witness:
  "find_segments squashed_graph example_graph (Module ''a'') (Module ''z'')
     = Some ([((''x.y'', ''c.d''), [\<lparr>line_number = 4, line_contents = ''import c.d''\<rparr>])],
             Inr [example_segment])
   \<and> head_candidates example_graph example_segment (Module ''a'') \<noteq> {}
   \<and> tail_candidates example_graph example_segment (Module ''z'') \<noteq> {}
   \<and> build_detailed_chain_from_route
        (corresponding_route example_graph [''a'', ''c.d'', ''e.f'', ''z'']
           (Module ''a'') (Module ''z'')) example_graph
      = Inr example_route_chain_data
   \<and> segments_to_collapsed_chains example_graph [example_segment] (Module ''a'') (Module ''z'')
      = Inr [example_collapsed_chain_data]
   \<and> map link_names (chain example_route_chain_data)
      = map link_names (chain example_collapsed_chain_data)
   \<and> map link_names (extra_firsts example_route_chain_data)
      = map link_names (extra_firsts example_collapsed_chain_data)
   \<and> list_all2 (line_numbers_correspond example_graph)
        (extra_firsts example_route_chain_data) (extra_firsts example_collapsed_chain_data)
   \<and> get_import_details example_graph ''a.b'' ''c.d'' \<noteq> []
   \<and> get_import_details example_graph ''c.d'' ''e.f'' \<noteq> []
   \<and> get_import_details example_graph ''e.f'' ''z'' \<noteq> []
   \<and> get_import_details example_graph ''a.c'' ''c.d'' \<noteq> []
   \<and> \<not> sorted_wrt (<) (map line_number (get_import_details example_graph ''a.c'' ''c.d''))
   \<and> example_route_chain_data \<noteq> example_collapsed_chain_data"
proof -
  have h: "head_candidates example_graph example_segment (Module ''a'') \<noteq> {}"
    and t: "tail_candidates example_graph example_segment (Module ''z'') \<noteq> {}"
    using example_head_candidates example_tail_candidates by blast+
  then have ne: "\<forall>s\<in>set [example_segment].
       head_candidates example_graph s (Module ''a'') \<noteq> {}
       \<and> tail_candidates example_graph s (Module ''z'') \<noteq> {}" by simp
  from route_and_pipeline_chains [OF squashed_find_segments ne]
  obtain cs ps where
    cs: "pop_shortest_chains squashed_graph (name (Module ''a'')) (name (Module ''z''))
         = Some (cs, [((''x.y'', ''c.d''), [\<lparr>line_number = 4, line_contents = ''import c.d''\<rparr>])])"
    and ps: "segments_to_collapsed_chains example_graph [example_segment] (Module ''a'') (Module ''z'')
             = Inr ps"
    and rt: "\<forall>i<length cs. \<exists>r.
           build_detailed_chain_from_route
             (corresponding_route example_graph (cs ! i) (Module ''a'') (Module ''z'')) example_graph
           = Inr r
           \<and> map link_names (chain r) = map link_names (chain (ps ! i))
           \<and> map link_names (extra_firsts r) = map link_names (extra_firsts (ps ! i))
           \<and> map link_names (extra_lasts r) = map link_names (extra_lasts (ps ! i))
           \<and> list_all2 (line_numbers_correspond example_graph) (chain r) (chain (ps ! i))
           \<and> list_all2 (line_numbers_correspond example_graph)
                (extra_firsts r) (extra_firsts (ps ! i))
           \<and> list_all2 (line_numbers_correspond example_graph)
                (extra_lasts r) (extra_lasts (ps ! i))
           \<and> ((\<forall>l\<in>set (chain r @ extra_firsts r @ extra_lasts r).
                   get_import_details example_graph (importer l) (imported l) \<noteq> [])
                \<longrightarrow> (r = ps ! i
                      \<longleftrightarrow> (\<forall>l\<in>set (chain r @ extra_firsts r @ extra_lasts r).
                             sorted_wrt (<)
                               (map line_number
                                  (get_import_details example_graph
                                     (importer l) (imported l))))))"
    by blast
  from cs squashed_pop have cs': "cs = [[''a'', ''c.d'', ''e.f'', ''z'']]" by simp
  from ps example_collapsed_chain have ps': "ps ! 0 = example_collapsed_chain_data" by simp
  from rt cs' obtain r where
    r: "build_detailed_chain_from_route
             (corresponding_route example_graph [''a'', ''c.d'', ''e.f'', ''z'']
                (Module ''a'') (Module ''z'')) example_graph = Inr r"
    and names: "map link_names (chain r) = map link_names (chain (ps ! 0))"
      "map link_names (extra_firsts r) = map link_names (extra_firsts (ps ! 0))"
    and corr: "list_all2 (line_numbers_correspond example_graph)
                (extra_firsts r) (extra_firsts (ps ! 0))"
    and eq: "(\<forall>l\<in>set (chain r @ extra_firsts r @ extra_lasts r).
                   get_import_details example_graph (importer l) (imported l) \<noteq> [])
                \<longrightarrow> (r = ps ! 0
                      \<longleftrightarrow> (\<forall>l\<in>set (chain r @ extra_firsts r @ extra_lasts r).
                             sorted_wrt (<)
                               (map line_number
                                  (get_import_details example_graph
                                     (importer l) (imported l)))))"
    by auto
  from r have r': "r = example_route_chain_data"
    by (simp add: example_corresponding_route example_route_chain)
  have d: "get_import_details example_graph ''a.b'' ''c.d'' \<noteq> []"
    "get_import_details example_graph ''c.d'' ''e.f'' \<noteq> []"
    "get_import_details example_graph ''e.f'' ''z'' \<noteq> []"
    "get_import_details example_graph ''a.c'' ''c.d'' \<noteq> []"
    by (simp_all add: example_details example_get_line_numbers)
  have u: "\<not> sorted_wrt (<) (map line_number (get_import_details example_graph ''a.c'' ''c.d''))"
    by (simp add: example_get_line_numbers)
  from eq d u have "r \<noteq> ps ! 0"
    unfolding r' by (simp add: example_route_chain_data_def)
  with r names corr d u h t squashed_find_segments example_collapsed_chain show ?thesis
    unfolding r' ps' by simp
qed

text \<open>
  Claim C5 as stated fails: in the example every import reported has detail records, and
  the import \<open>a.c -> c.d\<close> has the line numbers 5 and 2 in the order of the graph. The
  pipeline reports it with \<open>(2, 5)\<close>, the route-based assembly with \<open>(5, 2)\<close>.
\<close>

theorem route_and_pipeline_differ:
  "find_segments squashed_graph example_graph (Module ''a'') (Module ''z'')
     = Some ([((''x.y'', ''c.d''), [\<lparr>line_number = 4, line_contents = ''import c.d''\<rparr>])],
             Inr [example_segment])
   \<and> corresponding_route example_graph [''a'', ''c.d'', ''e.f'', ''z''] (Module ''a'') (Module ''z'')
     = example_route
   \<and> segments_to_collapsed_chains example_graph [example_segment] (Module ''a'') (Module ''z'')
     = Inr [\<lparr>chain = [\<lparr>importer = ''a.b'', imported = ''c.d'', Link.line_numbers = [Some 3]\<rparr>,
                       \<lparr>importer = ''c.d'', imported = ''e.f'', Link.line_numbers = [Some 7]\<rparr>,
                       \<lparr>importer = ''e.f'', imported = ''z'', Link.line_numbers = [Some 9]\<rparr>],
              extra_firsts = [\<lparr>importer = ''a.c'', imported = ''c.d'',
                               Link.line_numbers = [Some 2, Some 5]\<rparr>],
              extra_lasts = []\<rparr>]
   \<and> build_detailed_chain_from_route example_route example_graph
     = Inr \<lparr>chain = [\<lparr>importer = ''a.b'', imported = ''c.d'', Link.line_numbers = [Some 3]\<rparr>,
                      \<lparr>importer = ''c.d'', imported = ''e.f'', Link.line_numbers = [Some 7]\<rparr>,
                      \<lparr>importer = ''e.f'', imported = ''z'', Link.line_numbers = [Some 9]\<rparr>],
             extra_firsts = [\<lparr>importer = ''a.c'', imported = ''c.d'',
                              Link.line_numbers = [Some 5, Some 2]\<rparr>],
             extra_lasts = []\<rparr>
   \<and> map_sum id (\<lambda>r. [r]) (build_detailed_chain_from_route example_route example_graph)
     \<noteq> segments_to_collapsed_chains example_graph [example_segment] (Module ''a'') (Module ''z'')"
  using squashed_find_segments example_corresponding_route
  by (simp add: example_collapse example_route_chain example_route_chain_data_def
      del: segments_to_collapsed_chains.simps)

end
